theory Spec2Isabelle
  imports Main "HOL-Library.Word"
begin

section \<open>The memory manager of velox/common/memory/Memory.cpp\<close>

text \<open>
  The development embeds \<^verbatim>\<open>MemoryManager\<close> and the free functions of
  \<^verbatim>\<open>Memory.cpp\<close>. Objects live in an explicit heap, indexed by addresses; every
  operation takes the manager object and the rest of the process state and returns an
  outcome together with both, so that what an operation has already written when a check
  throws stays written. Locks are not modelled: each operation runs alone.
\<close>

subsection \<open>Machine types\<close>

type_synonym i64 = "64 word"
type_synonym u64 = "64 word"
type_synonym u16 = "16 word"
type_synonym i32 = "32 word"

text \<open>
  \<^verbatim>\<open>std::min(a, b)\<close> is \<^verbatim>\<open>(b < a) ? b : a\<close> and \<^verbatim>\<open>std::max(a, b)\<close> is
  \<^verbatim>\<open>(a < b) ? b : a\<close>. On \<^verbatim>\<open>int64_t\<close> and \<^verbatim>\<open>int\<close> the comparison is signed
  (\<open>sint\<close>), on the unsigned types it is the order of the words.
\<close>

definition std_min_i64 :: "i64 \<Rightarrow> i64 \<Rightarrow> i64" where
  "std_min_i64 a b = (if sint b < sint a then b else a)"

definition std_min_u64 :: "u64 \<Rightarrow> u64 \<Rightarrow> u64" where
  "std_min_u64 a b = (if b < a then b else a)"

definition std_max_u16 :: "u16 \<Rightarrow> u16 \<Rightarrow> u16" where
  "std_max_u16 a b = (if a < b then b else a)"

definition std_max_int :: "int \<Rightarrow> int \<Rightarrow> int" where
  "std_max_int a b = (if a < b then b else a)"

subsection \<open>Formatting of integers\<close>

text \<open>\<^verbatim>\<open>fmt::format("{}", n)\<close> on an integer: its decimal digits, a minus sign first
  when it is negative.\<close>

definition digit :: "nat \<Rightarrow> char" where
  "digit n = ''0123456789'' ! n"

fun decimal :: "nat \<Rightarrow> string" where
  "decimal n = (if n < 10 then [digit n] else decimal (n div 10) @ [digit (n mod 10)])"

declare decimal.simps [simp del]

definition formatInt :: "int \<Rightarrow> string" where
  "formatInt i = (if i < 0 then CHR ''-'' # decimal (nat (- i)) else decimal (nat i))"

text \<open>The number that a string of decimal digits stands for.\<close>

definition decimalValue :: "string \<Rightarrow> nat" where
  "decimalValue ds = foldl (\<lambda>a c. 10 * a + (of_char c - 48)) 0 ds"

subsection \<open>Pools and the heap\<close>

type_synonym pool_id = nat

text \<open>A \<^verbatim>\<open>MemoryReclaimer\<close> and the arbitration state-check callback are objects of
  the callers; the model holds a handle for each.\<close>

type_synonym reclaimer = nat
type_synonym state_check_cb = nat

datatype Kind = kLeaf | kAggregate

text \<open>
  A pool object: what the constructor is given (name, kind, parent, reclaimer and the
  fields of \<^verbatim>\<open>MemoryPool::Options\<close>), the granted capacity and the usage the
  accessors \<^verbatim>\<open>capacity()\<close> and \<^verbatim>\<open>currentBytes()\<close> read, the children, and
  \<open>p_expired\<close>: the last owning \<^verbatim>\<open>shared_ptr\<close> is gone, so that
  \<^verbatim>\<open>weak_ptr::lock()\<close> yields \<^verbatim>\<open>nullptr\<close>.
\<close>

record MemoryPool =
  p_name :: string
  p_kind :: Kind
  p_parent :: "pool_id option"
  p_reclaimer :: "reclaimer option"
  p_alignment :: u16
  p_maxCapacity :: i64
  p_trackUsage :: bool
  p_threadSafe :: bool
  p_debugEnabled :: bool
  p_coreOnAllocationFailureEnabled :: bool
  p_capacity :: i64
  p_currentBytes :: i64
  p_children :: "pool_id list"
  p_expired :: bool

type_synonym heap = "pool_id \<rightharpoonup> MemoryPool"

text \<open>The state outside any manager: the heap of pool objects, the next free address,
  and the two function-local static counters \<^verbatim>\<open>poolId\<close> of \<^verbatim>\<open>addRootPool\<close> and
  \<^verbatim>\<open>addLeafPool\<close>.\<close>

record world =
  heap :: heap
  nextAddr :: pool_id
  rootPoolId :: i64
  leafPoolId :: i64

subsection \<open>Errors\<close>

datatype error =
    NullAllocator
  | NullArbitrator
  | CapacityMismatch
  | NegativeCapacity
  | AlignmentCheckFailed
  | LeakedPools
  | AlreadySet
  | NotSet
  | DuplicateRootPoolName string
  | PoolCapacityNotZero
  | NullPool
  | DanglingPool
  | DuplicateChildName string
  | PoolAtMaxCapacity
  | PoolNotFound string
  | CurrentBytesNotZero
  | NoSharedLeafPools
  | OutOfRange

subsection \<open>Collaborators that are not part of Memory.cpp\<close>

record MemoryAllocator =
  alloc_capacity :: i64
  alloc_totalUsedBytes :: i64

record ArbitratorConfig =
  cfg_kind :: string
  cfg_capacity :: i64
  cfg_memoryPoolTransferCapacity :: u64
  cfg_memoryReclaimWaitMs :: u64
  cfg_arbitrationStateCheckCb :: "state_check_cb option"

text \<open>What an arbitrator call does to the pools: the granted capacities it sets.\<close>

type_synonym capacity_updates = "(pool_id \<times> i64) list"

text \<open>
  The constants, build settings and collaborators that \<^verbatim>\<open>Memory.cpp\<close> uses and
  whose code lives elsewhere are parameters of the model. \<open>'a\<close> is the state of an
  arbitrator object.
  \<^item> \<open>kMaxMemory\<close>, \<open>kMinAlignment\<close>: the constants of those names;
  \<^item> \<open>dchecksEnabled\<close>: whether \<^verbatim>\<open>VELOX_DCHECK_*\<close> is compiled in (a debug build);
  \<^item> \<open>numSharedLeafPoolsFlag\<close>: \<^verbatim>\<open>FLAGS_velox_memory_num_shared_leaf_pools\<close>;
  \<^item> \<open>alignmentCheck\<close>: whether \<^verbatim>\<open>MemoryAllocator::alignmentCheck\<close> passes;
  \<^item> \<open>arbitratorCreate\<close>: \<^verbatim>\<open>MemoryArbitrator::create\<close>, \<open>None\<close> for a null pointer;
  \<^item> \<open>freshPoolCapacity\<close>: what \<^verbatim>\<open>capacity()\<close> reads on a pool just constructed;
  \<^item> \<open>growCapacity\<close>, \<open>growCapacityFrom\<close>, \<open>shrinkCapacity\<close>, \<open>shrinkCapacityFrom\<close>:
    the four entry points of the arbitrator (grow one pool; grow one pool with
    candidates to reclaim from; shrink one pool; shrink a list of pools);
  \<^item> \<open>threadIdHash\<close>: \<^verbatim>\<open>std::hash<std::thread::id>\<close>.
\<close>

type_synonym thread_id = nat

record 'a external =
  kMaxMemory :: i64
  kMinAlignment :: u16
  dchecksEnabled :: bool
  numSharedLeafPoolsFlag :: i32
  alignmentCheck :: "u64 \<Rightarrow> u16 \<Rightarrow> bool"
  arbitratorCreate :: "ArbitratorConfig \<Rightarrow> 'a option"
  freshPoolCapacity :: i64
  growCapacity :: "'a \<Rightarrow> heap \<Rightarrow> pool_id \<Rightarrow> u64 \<Rightarrow> 'a \<times> capacity_updates"
  growCapacityFrom ::
    "'a \<Rightarrow> heap \<Rightarrow> pool_id \<Rightarrow> pool_id list \<Rightarrow> u64 \<Rightarrow> bool \<times> 'a \<times> capacity_updates"
  shrinkCapacity :: "'a \<Rightarrow> heap \<Rightarrow> pool_id \<Rightarrow> u64 \<Rightarrow> 'a \<times> capacity_updates"
  shrinkCapacityFrom ::
    "'a \<Rightarrow> heap \<Rightarrow> pool_id list \<Rightarrow> u64 \<Rightarrow> u64 \<times> 'a \<times> capacity_updates"
  threadIdHash :: "thread_id \<Rightarrow> u64"

fun applyCapacities :: "capacity_updates \<Rightarrow> heap \<Rightarrow> heap" where
  "applyCapacities [] h = h"
| "applyCapacities ((p, c) # us) h =
     applyCapacities us
       (case h p of None \<Rightarrow> h | Some q \<Rightarrow> h(p \<mapsto> q\<lparr>p_capacity := c\<rparr>))"

subsection \<open>The manager object\<close>

record MemoryManagerOptions =
  alignment :: u16
  capacity :: i64
  queryMemoryCapacity :: i64
  memoryPoolInitCapacity :: u64
  memoryPoolTransferCapacity :: u64
  memoryReclaimWaitMs :: u64
  arbitratorKind :: string
  arbitrationStateCheckCb :: "state_check_cb option"
  allocator :: "MemoryAllocator option"
  trackDefaultUsage :: bool
  checkUsageLeak :: bool
  debugEnabled :: bool
  coreOnAllocationFailureEnabled :: bool

text \<open>The fields are the members of the class (\<open>m_pools\<close> is \<^verbatim>\<open>pools_\<close>, and so
  on). \<open>m_pools\<close> maps a name to a non-owning reference; it is kept as a list of entries
  with one entry per name, in the order of insertion (the order in which the source's
  map enumerates its entries is not fixed by the language).\<close>

record 'a MemoryManager =
  m_capacity :: i64
  m_allocator :: MemoryAllocator
  m_poolInitCapacity :: u64
  m_arbitrator :: 'a
  m_alignment :: u16
  m_checkUsageLeak :: bool
  m_debugEnabled :: bool
  m_coreOnAllocationFailureEnabled :: bool
  m_defaultRoot :: pool_id
  m_sharedLeafPools :: "pool_id list"
  m_pools :: "(string \<times> pool_id) list"

definition kDefaultRootName :: string where
  "kDefaultRootName = ''__default_root__''"

text \<open>
  Modelled from the spec: the constructor of \<^verbatim>\<open>MemoryPoolImpl\<close> is not part of
  \<^verbatim>\<open>Memory.cpp\<close>. A pool is a named node with a kind, a parent, a maximal and a
  granted capacity, a usage counter and children; a new pool has no usage and no
  children and is owned by whoever created it. What \<^verbatim>\<open>capacity()\<close> reads on the
  new object is the parameter \<open>freshPoolCapacity\<close>.
\<close>

definition newMemoryPoolImpl ::
  "'a external \<Rightarrow> MemoryPool \<Rightarrow> world \<Rightarrow> pool_id \<times> world" where
  "newMemoryPoolImpl X init w =
     (nextAddr w,
      w\<lparr>heap := (heap w)(nextAddr w \<mapsto>
             init\<lparr>p_capacity := freshPoolCapacity X, p_currentBytes := 0,
                  p_children := [], p_expired := False\<rparr>),
        nextAddr := Suc (nextAddr w)\<rparr>)"

text \<open>Modelled from the spec: the names of the children of a pool that are still owned,
  given the list of its children. These are the names that a new child cannot have.\<close>

fun liveNames :: "heap \<Rightarrow> pool_id list \<Rightarrow> string list" where
  "liveNames h [] = []"
| "liveNames h (c # cs) =
     (case h c of
        None \<Rightarrow> liveNames h cs
      | Some q \<Rightarrow> if p_expired q then liveNames h cs else p_name q # liveNames h cs)"

text \<open>
  Modelled from the spec: \<^verbatim>\<open>MemoryPool::addLeafChild\<close> is not part of
  \<^verbatim>\<open>Memory.cpp\<close>. It creates a leaf pool that is a child of the pool it is called
  on, with the parent's settings. The spec gives a pool a name that is unique and
  immutable: as the registry does for the root pools, the parent keeps the names of its
  children apart, so the call fails, and creates nothing, when a child of that pool
  which is still owned has the name already; nothing changes the name of a pool.
\<close>

definition addLeafChild ::
  "'a external \<Rightarrow> pool_id \<Rightarrow> string \<Rightarrow> bool \<Rightarrow> reclaimer option \<Rightarrow> world
     \<Rightarrow> (error + pool_id) \<times> world" where
  "addLeafChild X root nm threadSafe rec w =
     (case heap w root of
        None \<Rightarrow> (Inl DanglingPool, w)
      | Some r \<Rightarrow>
          if nm \<in> set (liveNames (heap w) (p_children r))
          then (Inl (DuplicateChildName nm), w)
          else
            (let (child, w1) =
                   newMemoryPoolImpl X
                     (r\<lparr>p_name := nm, p_kind := kLeaf, p_parent := Some root,
                        p_reclaimer := rec, p_maxCapacity := kMaxMemory X,
                        p_threadSafe := threadSafe\<rparr>) w
             in (Inr child,
                 w1\<lparr>heap := (heap w1)(root \<mapsto> r\<lparr>p_children := p_children r @ [child]\<rparr>)\<rparr>)))"

text \<open>
  Modelled from the spec: \<^verbatim>\<open>MemoryPool::grow\<close> is not part of \<^verbatim>\<open>Memory.cpp\<close>.
  It raises the granted capacity of the pool by the given number of bytes.
\<close>

definition grow :: "pool_id \<Rightarrow> u64 \<Rightarrow> world \<Rightarrow> world" where
  "grow p bytes w =
     (case heap w p of
        None \<Rightarrow> w
      | Some q \<Rightarrow> w\<lparr>heap := (heap w)(p \<mapsto> q\<lparr>p_capacity := p_capacity q + bytes\<rparr>)\<rparr>)"

subsection \<open>MemoryManager::addLeafPool\<close>

text \<open>The name of the new pool: the one given, or one made from the static counter,
  which is then incremented.\<close>

definition leafPoolName :: "string \<Rightarrow> world \<Rightarrow> string \<times> world" where
  "leafPoolName nm w =
     (if nm = [] then
        (''default_leaf_'' @ formatInt (sint (leafPoolId w)),
         w\<lparr>leafPoolId := leafPoolId w + 1\<rparr>)
      else (nm, w))"

definition addLeafPool ::
  "'a external \<Rightarrow> string \<Rightarrow> bool \<Rightarrow> 'a MemoryManager \<Rightarrow> world \<Rightarrow> (error + pool_id) \<times> world" where
  "addLeafPool X nm threadSafe m w =
     (let (poolName, w0) = leafPoolName nm w
      in addLeafChild X (m_defaultRoot m) poolName threadSafe None w0)"

subsection \<open>The constructor\<close>

text \<open>The loop that fills \<open>m_sharedLeafPools\<close>, over the indices \<open>0, \<dots>, n - 1\<close>.\<close>

fun addSharedLeafPools ::
  "'a external \<Rightarrow> nat list \<Rightarrow> 'a MemoryManager \<Rightarrow> world
     \<Rightarrow> (error + 'a MemoryManager) \<times> world" where
  "addSharedLeafPools X [] m w = (Inr m, w)"
| "addSharedLeafPools X (i # is) m w =
     (case addLeafPool X (''default_shared_leaf_pool_'' @ decimal i) True m w of
        (Inl e, w1) \<Rightarrow> (Inl e, w1)
      | (Inr p, w1) \<Rightarrow>
          addSharedLeafPools X is (m\<lparr>m_sharedLeafPools := m_sharedLeafPools m @ [p]\<rparr>) w1)"

text \<open>
  \<open>arbitratorConfig\<close> is the configuration handed to \<^verbatim>\<open>MemoryArbitrator::create\<close>.
  The member initialisers run first (allocator, arbitrator, alignment, default root),
  then the checks of the body in the order of the source, then the growth of the default
  root and the creation of the shared leaf pools. \<^verbatim>\<open>options.allocator\<close> is
  dereferenced by the first initialiser; a null pointer there is reported as
  \<open>NullAllocator\<close>, and an allocator that is there is taken to be owned by a shared
  pointer. When a check fails, the members that were constructed are destroyed again;
  the model leaves their objects in the heap, where nothing refers to them.
\<close>

definition arbitratorConfig :: "MemoryManagerOptions \<Rightarrow> ArbitratorConfig" where
  "arbitratorConfig options =
     \<lparr>cfg_kind = arbitratorKind options,
      cfg_capacity = std_min_i64 (queryMemoryCapacity options) (capacity options),
      cfg_memoryPoolTransferCapacity = memoryPoolTransferCapacity options,
      cfg_memoryReclaimWaitMs = memoryReclaimWaitMs options,
      cfg_arbitrationStateCheckCb = arbitrationStateCheckCb options\<rparr>"

definition MemoryManager_ctor ::
  "'a external \<Rightarrow> MemoryManagerOptions \<Rightarrow> world \<Rightarrow> (error + 'a MemoryManager) \<times> world" where
  "MemoryManager_ctor X options w =
     (case allocator options of
        None \<Rightarrow> (Inl NullAllocator, w)
      | Some alloc \<Rightarrow>
          (let arb = arbitratorCreate X (arbitratorConfig options);
               al = std_max_u16 (kMinAlignment X) (alignment options);
               (root, w1) = newMemoryPoolImpl X
                 \<lparr>p_name = kDefaultRootName, p_kind = kAggregate, p_parent = None,
                  p_reclaimer = None, p_alignment = al, p_maxCapacity = kMaxMemory X,
                  p_trackUsage = trackDefaultUsage options, p_threadSafe = True,
                  p_debugEnabled = debugEnabled options,
                  p_coreOnAllocationFailureEnabled = coreOnAllocationFailureEnabled options,
                  p_capacity = 0, p_currentBytes = 0, p_children = [], p_expired = False\<rparr> w
           in case arb of
                None \<Rightarrow> (Inl NullArbitrator, w1)
              | Some a \<Rightarrow>
                  if alloc_capacity alloc \<noteq> capacity options then (Inl CapacityMismatch, w1)
                  else if sint (capacity options) < 0 then (Inl NegativeCapacity, w1)
                  else if \<not> alignmentCheck X 0 al then (Inl AlignmentCheckFailed, w1)
                  else
                    addSharedLeafPools X
                      [0 ..< nat (std_max_int 1 (sint (numSharedLeafPoolsFlag X)))]
                      \<lparr>m_capacity = capacity options, m_allocator = alloc,
                       m_poolInitCapacity = memoryPoolInitCapacity options,
                       m_arbitrator = a, m_alignment = al,
                       m_checkUsageLeak = checkUsageLeak options,
                       m_debugEnabled = debugEnabled options,
                       m_coreOnAllocationFailureEnabled = coreOnAllocationFailureEnabled options,
                       m_defaultRoot = root, m_sharedLeafPools = [], m_pools = []\<rparr>
                      (grow root (kMaxMemory X) w1)))"

text \<open>The destructor's body. The members are destroyed after it by their own
  destructors, which are not part of \<^verbatim>\<open>Memory.cpp\<close>.\<close>

definition MemoryManager_dtor :: "'a MemoryManager \<Rightarrow> error + unit" where
  "MemoryManager_dtor m =
     (if m_checkUsageLeak m \<and> length (m_pools m) \<noteq> 0 then Inl LeakedPools else Inr ())"

subsection \<open>Accessors\<close>

definition MemoryManager_capacity :: "'a MemoryManager \<Rightarrow> i64" where
  "MemoryManager_capacity m = m_capacity m"

definition MemoryManager_alignment :: "'a MemoryManager \<Rightarrow> u16" where
  "MemoryManager_alignment m = m_alignment m"

subsection \<open>The registry of root pools\<close>

text \<open>\<^verbatim>\<open>pools_.find\<close>, \<^verbatim>\<open>pools_.emplace\<close> (which leaves the map alone when the key
  is there) and \<^verbatim>\<open>pools_.erase\<close> of the entry found for a key.\<close>

definition pools_find :: "(string \<times> pool_id) list \<Rightarrow> string \<Rightarrow> pool_id option" where
  "pools_find ps nm = map_of ps nm"

definition pools_emplace ::
  "string \<Rightarrow> pool_id \<Rightarrow> (string \<times> pool_id) list \<Rightarrow> (string \<times> pool_id) list" where
  "pools_emplace nm p ps = (if map_of ps nm = None then ps @ [(nm, p)] else ps)"

definition pools_erase :: "string \<Rightarrow> (string \<times> pool_id) list \<Rightarrow> (string \<times> pool_id) list" where
  "pools_erase nm ps = filter (\<lambda>e. fst e \<noteq> nm) ps"

text \<open>\<^verbatim>\<open>entry.second.lock()\<close> is not null: the object is there and still owned.\<close>

definition lock_ok :: "world \<Rightarrow> pool_id \<Rightarrow> bool" where
  "lock_ok w p = (case heap w p of None \<Rightarrow> False | Some q \<Rightarrow> \<not> p_expired q)"

definition getAlivePools :: "'a MemoryManager \<Rightarrow> world \<Rightarrow> pool_id list" where
  "getAlivePools m w = map snd (filter (\<lambda>e. lock_ok w (snd e)) (m_pools m))"

subsection \<open>MemoryManager::addRootPool\<close>

text \<open>The name of the new pool, as for leaf pools.\<close>

definition rootPoolName :: "string \<Rightarrow> world \<Rightarrow> string \<times> world" where
  "rootPoolName nm w =
     (if nm = [] then
        (''default_root_'' @ formatInt (sint (rootPoolId w)),
         w\<lparr>rootPoolId := rootPoolId w + 1\<rparr>)
      else (nm, w))"

definition addRootPool ::
  "'a external \<Rightarrow> string \<Rightarrow> i64 \<Rightarrow> reclaimer option \<Rightarrow> 'a MemoryManager \<Rightarrow> world
     \<Rightarrow> (error + pool_id) \<times> 'a MemoryManager \<times> world" where
  "addRootPool X nm cap rec m w =
     (let (poolName, w0) = rootPoolName nm w
      in if pools_find (m_pools m) poolName \<noteq> None
         then (Inl (DuplicateRootPoolName poolName), m, w0)
         else
           (let (pool, w1) = newMemoryPoolImpl X
                  \<lparr>p_name = poolName, p_kind = kAggregate, p_parent = None,
                   p_reclaimer = rec, p_alignment = m_alignment m, p_maxCapacity = cap,
                   p_trackUsage = True, p_threadSafe = True,
                   p_debugEnabled = m_debugEnabled m,
                   p_coreOnAllocationFailureEnabled = m_coreOnAllocationFailureEnabled m,
                   p_capacity = 0, p_currentBytes = 0, p_children = [],
                   p_expired = False\<rparr> w0;
                m1 = m\<lparr>m_pools := pools_emplace poolName pool (m_pools m)\<rparr>
            in case heap w1 pool of
                 None \<Rightarrow> (Inl DanglingPool, m1, w1)
               | Some q \<Rightarrow>
                   if p_capacity q \<noteq> 0 then (Inl PoolCapacityNotZero, m1, w1)
                   else
                     (let (a, ups) = growCapacity X (m_arbitrator m1) (heap w1) pool
                                       (std_min_u64 (m_poolInitCapacity m1) cap)
                      in (Inr pool, m1\<lparr>m_arbitrator := a\<rparr>,
                          w1\<lparr>heap := applyCapacities ups (heap w1)\<rparr>))))"

subsection \<open>MemoryManager::growPool and MemoryManager::shrinkPools\<close>

text \<open>A pool argument is a pointer: \<open>None\<close> is the null pointer. Dereferencing an
  address at which there is no object has no defined behaviour in the source; the model
  reports it as \<open>DanglingPool\<close>.\<close>

definition growPool ::
  "'a external \<Rightarrow> pool_id option \<Rightarrow> u64 \<Rightarrow> 'a MemoryManager \<Rightarrow> world
     \<Rightarrow> (error + bool) \<times> 'a MemoryManager \<times> world" where
  "growPool X pool incrementBytes m w =
     (case pool of
        None \<Rightarrow> (Inl NullPool, m, w)
      | Some p \<Rightarrow>
          (case heap w p of
             None \<Rightarrow> (Inl DanglingPool, m, w)
           | Some q \<Rightarrow>
               if p_capacity q = kMaxMemory X then (Inl PoolAtMaxCapacity, m, w)
               else
                 (let (ok, a, ups) = growCapacityFrom X (m_arbitrator m) (heap w) p
                                       (getAlivePools m w) incrementBytes
                  in (Inr ok, m\<lparr>m_arbitrator := a\<rparr>,
                      w\<lparr>heap := applyCapacities ups (heap w)\<rparr>))))"

definition shrinkPools ::
  "'a external \<Rightarrow> u64 \<Rightarrow> 'a MemoryManager \<Rightarrow> world \<Rightarrow> u64 \<times> 'a MemoryManager \<times> world" where
  "shrinkPools X targetBytes m w =
     (let (freed, a, ups) = shrinkCapacityFrom X (m_arbitrator m) (heap w)
                              (getAlivePools m w) targetBytes
      in (freed, m\<lparr>m_arbitrator := a\<rparr>, w\<lparr>heap := applyCapacities ups (heap w)\<rparr>))"

subsection \<open>MemoryManager::dropPool\<close>

definition dropPool ::
  "'a external \<Rightarrow> pool_id option \<Rightarrow> 'a MemoryManager \<Rightarrow> world
     \<Rightarrow> (error + unit) \<times> 'a MemoryManager \<times> world" where
  "dropPool X pool m w =
     (case pool of
        None \<Rightarrow> (Inl NullPool, m, w)
      | Some p \<Rightarrow>
          (case heap w p of
             None \<Rightarrow> (Inl DanglingPool, m, w)
           | Some q \<Rightarrow>
               if pools_find (m_pools m) (p_name q) = None
               then (Inl (PoolNotFound (p_name q)), m, w)
               else
                 (let m1 = m\<lparr>m_pools := pools_erase (p_name q) (m_pools m)\<rparr>
                  in if dchecksEnabled X \<and> p_currentBytes q \<noteq> 0
                     then (Inl CurrentBytesNotZero, m1, w)
                     else
                       (let (a, ups) = shrinkCapacity X (m_arbitrator m1) (heap w) p 0
                        in (Inr (), m1\<lparr>m_arbitrator := a\<rparr>,
                            w\<lparr>heap := applyCapacities ups (heap w)\<rparr>)))))"

subsection \<open>MemoryManager::deprecatedSharedLeafPool\<close>

text \<open>\<^verbatim>\<open>idx % sharedLeafPools_.size()\<close> is a division by zero on an empty vector
  (reported as \<open>NoSharedLeafPools\<close>); \<^verbatim>\<open>at\<close> throws when the index is out of range.\<close>

definition vector_at :: "'b list \<Rightarrow> nat \<Rightarrow> error + 'b" where
  "vector_at xs i = (if i < length xs then Inr (xs ! i) else Inl OutOfRange)"

definition deprecatedSharedLeafPool ::
  "'a external \<Rightarrow> thread_id \<Rightarrow> 'a MemoryManager \<Rightarrow> error + pool_id" where
  "deprecatedSharedLeafPool X tid m =
     (let idx = threadIdHash X tid
      in if length (m_sharedLeafPools m) = 0 then Inl NoSharedLeafPools
         else vector_at (m_sharedLeafPools m)
                (unat idx mod length (m_sharedLeafPools m)))"

subsection \<open>The process-wide instance and the free functions\<close>

text \<open>\<open>kInstance\<close> is the static of \<^verbatim>\<open>instance()\<close>; \<open>spillPool\<close> is the static of
  \<^verbatim>\<open>spillMemoryPool()\<close>, \<open>None\<close> until its initialiser has completed.\<close>

record 'a process =
  pworld :: world
  kInstance :: "'a MemoryManager option"
  spillPool :: "pool_id option"

definition deprecatedGetInstance ::
  "'a external \<Rightarrow> MemoryManagerOptions \<Rightarrow> 'a process \<Rightarrow> (error + 'a MemoryManager) \<times> 'a process" where
  "deprecatedGetInstance X options s =
     (case kInstance s of
        Some m \<Rightarrow> (Inr m, s)
      | None \<Rightarrow>
          (case MemoryManager_ctor X options (pworld s) of
             (Inl e, w) \<Rightarrow> (Inl e, s\<lparr>pworld := w\<rparr>)
           | (Inr m, w) \<Rightarrow> (Inr m, s\<lparr>pworld := w, kInstance := Some m\<rparr>)))"

definition initialize ::
  "'a external \<Rightarrow> MemoryManagerOptions \<Rightarrow> 'a process \<Rightarrow> (error + unit) \<times> 'a process" where
  "initialize X options s =
     (case kInstance s of
        Some m \<Rightarrow> (Inl AlreadySet, s)
      | None \<Rightarrow>
          (case MemoryManager_ctor X options (pworld s) of
             (Inl e, w) \<Rightarrow> (Inl e, s\<lparr>pworld := w\<rparr>)
           | (Inr m, w) \<Rightarrow> (Inr (), s\<lparr>pworld := w, kInstance := Some m\<rparr>)))"

definition getInstance :: "'a process \<Rightarrow> error + 'a MemoryManager" where
  "getInstance s = (case kInstance s of None \<Rightarrow> Inl NotSet | Some m \<Rightarrow> Inr m)"

text \<open>The assignment to \<^verbatim>\<open>instanceRef\<close> stores the new manager and then destroys the
  one it replaces.\<close>

definition testingSetInstance ::
  "'a external \<Rightarrow> MemoryManagerOptions \<Rightarrow> 'a process \<Rightarrow> (error + 'a MemoryManager) \<times> 'a process" where
  "testingSetInstance X options s =
     (case MemoryManager_ctor X options (pworld s) of
        (Inl e, w) \<Rightarrow> (Inl e, s\<lparr>pworld := w\<rparr>)
      | (Inr m, w) \<Rightarrow>
          (let s1 = s\<lparr>pworld := w, kInstance := Some m\<rparr>
           in case kInstance s of
                None \<Rightarrow> (Inr m, s1)
              | Some old \<Rightarrow>
                  (case MemoryManager_dtor old of
                     Inl e \<Rightarrow> (Inl e, s1)
                   | Inr u \<Rightarrow> (Inr m, s1))))"

definition spillMemoryPool :: "'a external \<Rightarrow> 'a process \<Rightarrow> (error + pool_id) \<times> 'a process" where
  "spillMemoryPool X s =
     (case spillPool s of
        Some p \<Rightarrow> (Inr p, s)
      | None \<Rightarrow>
          (case getInstance s of
             Inl e \<Rightarrow> (Inl e, s)
           | Inr m \<Rightarrow>
               (case addLeafPool X ''_sys.spilling'' True m (pworld s) of
                  (Inl e, w) \<Rightarrow> (Inl e, s\<lparr>pworld := w\<rparr>)
                | (Inr p, w) \<Rightarrow> (Inr p, s\<lparr>pworld := w, spillPool := Some p\<rparr>))))"

definition isSpillMemoryPool ::
  "'a external \<Rightarrow> pool_id option \<Rightarrow> 'a process \<Rightarrow> (error + bool) \<times> 'a process" where
  "isSpillMemoryPool X pool s =
     (case spillMemoryPool X s of
        (Inl e, s1) \<Rightarrow> (Inl e, s1)
      | (Inr p, s1) \<Rightarrow> (Inr (pool = Some p), s1))"

text \<open>\<^verbatim>\<open>deprecatedAddDefaultLeafMemoryPool\<close> and the free function
  \<^verbatim>\<open>deprecatedSharedLeafPool\<close> go through \<^verbatim>\<open>deprecatedDefaultMemoryManager\<close>, which
  creates the instance from the default options (a parameter here) when there is none.\<close>

definition deprecatedAddDefaultLeafMemoryPool ::
  "'a external \<Rightarrow> MemoryManagerOptions \<Rightarrow> string \<Rightarrow> bool \<Rightarrow> 'a process
     \<Rightarrow> (error + pool_id) \<times> 'a process" where
  "deprecatedAddDefaultLeafMemoryPool X defaults nm threadSafe s =
     (case deprecatedGetInstance X defaults s of
        (Inl e, s1) \<Rightarrow> (Inl e, s1)
      | (Inr m, s1) \<Rightarrow>
          (case addLeafPool X nm threadSafe m (pworld s1) of
             (r, w) \<Rightarrow> (r, s1\<lparr>pworld := w\<rparr>)))"

definition deprecatedSharedLeafPool_free ::
  "'a external \<Rightarrow> MemoryManagerOptions \<Rightarrow> thread_id \<Rightarrow> 'a process
     \<Rightarrow> (error + pool_id) \<times> 'a process" where
  "deprecatedSharedLeafPool_free X defaults tid s =
     (case deprecatedGetInstance X defaults s of
        (Inl e, s1) \<Rightarrow> (Inl e, s1)
      | (Inr m, s1) \<Rightarrow> (deprecatedSharedLeafPool X tid m, s1))"

subsection \<open>Runs of a process\<close>

text \<open>
  A run of a process is a sequence of calls of the functions above; the member functions
  are called on the process-wide instance, as through \<^verbatim>\<open>memoryManager()\<close>, and do
  nothing when there is none. \<open>perform\<close> gives the state after one call, whatever its
  outcome was, and \<open>runCalls\<close> the state after a sequence of calls. A sequence of
  calls goes on after a call that failed, also where a process ends with the failure
  (a check that fails in the destructor of the manager that \<^verbatim>\<open>testingSetInstance\<close>
  replaces): the calls that a process makes are such a sequence, so what holds after
  every sequence of calls holds after the calls of every process.
\<close>

datatype call =
    Initialize MemoryManagerOptions
  | TestingSetInstance MemoryManagerOptions
  | DeprecatedGetInstance MemoryManagerOptions
  | DeprecatedAddDefaultLeafMemoryPool MemoryManagerOptions string bool
  | DeprecatedSharedLeafPool MemoryManagerOptions thread_id
  | AddRootPool string i64 "reclaimer option"
  | AddLeafPool string bool
  | GrowPool "pool_id option" u64
  | ShrinkPools u64
  | DropPool "pool_id option"
  | SpillMemoryPool
  | IsSpillMemoryPool "pool_id option"

definition onInstance ::
  "('a MemoryManager \<Rightarrow> world \<Rightarrow> 'a MemoryManager \<times> world) \<Rightarrow> 'a process \<Rightarrow> 'a process" where
  "onInstance f s =
     (case kInstance s of
        None \<Rightarrow> s
      | Some m \<Rightarrow> (case f m (pworld s) of (m1, w1) \<Rightarrow> s\<lparr>pworld := w1, kInstance := Some m1\<rparr>))"

fun perform :: "'a external \<Rightarrow> call \<Rightarrow> 'a process \<Rightarrow> 'a process" where
  "perform X (Initialize options) s = snd (initialize X options s)"
| "perform X (TestingSetInstance options) s = snd (testingSetInstance X options s)"
| "perform X (DeprecatedGetInstance options) s = snd (deprecatedGetInstance X options s)"
| "perform X (DeprecatedAddDefaultLeafMemoryPool defaults nm ts) s =
     snd (deprecatedAddDefaultLeafMemoryPool X defaults nm ts s)"
| "perform X (DeprecatedSharedLeafPool defaults tid) s =
     snd (deprecatedSharedLeafPool_free X defaults tid s)"
| "perform X (AddRootPool nm cap rec) s = onInstance (\<lambda>m w. snd (addRootPool X nm cap rec m w)) s"
| "perform X (AddLeafPool nm ts) s = onInstance (\<lambda>m w. (m, snd (addLeafPool X nm ts m w))) s"
| "perform X (GrowPool pool n) s = onInstance (\<lambda>m w. snd (growPool X pool n m w)) s"
| "perform X (ShrinkPools n) s = onInstance (\<lambda>m w. snd (shrinkPools X n m w)) s"
| "perform X (DropPool pool) s = onInstance (\<lambda>m w. snd (dropPool X pool m w)) s"
| "perform X SpillMemoryPool s = snd (spillMemoryPool X s)"
| "perform X (IsSpillMemoryPool pool) s = snd (isSpillMemoryPool X pool s)"

fun runCalls :: "'a external \<Rightarrow> call list \<Rightarrow> 'a process \<Rightarrow> 'a process" where
  "runCalls X [] s = s"
| "runCalls X (c # cs) s = runCalls X cs (perform X c s)"

subsection \<open>Auxiliary notions of the statements\<close>

text \<open>The checks of the constructor, as a predicate on the options.\<close>

definition ctorChecks :: "'a external \<Rightarrow> MemoryManagerOptions \<Rightarrow> bool" where
  "ctorChecks X options \<longleftrightarrow>
     (case allocator options of
        None \<Rightarrow> False
      | Some alloc \<Rightarrow>
          arbitratorCreate X (arbitratorConfig options) \<noteq> None \<and>
          alloc_capacity alloc = capacity options \<and>
          0 \<le> sint (capacity options) \<and>
          alignmentCheck X 0 (std_max_u16 (kMinAlignment X) (alignment options)))"

text \<open>The object that the constructor call of \<^verbatim>\<open>addRootPool\<close> creates, as it is when its
  capacity is checked.\<close>

definition rootPoolInit ::
  "'a external \<Rightarrow> string \<Rightarrow> i64 \<Rightarrow> reclaimer option \<Rightarrow> 'a MemoryManager \<Rightarrow> MemoryPool" where
  "rootPoolInit X poolName cap rec m =
     \<lparr>p_name = poolName, p_kind = kAggregate, p_parent = None,
      p_reclaimer = rec, p_alignment = m_alignment m, p_maxCapacity = cap,
      p_trackUsage = True, p_threadSafe = True,
      p_debugEnabled = m_debugEnabled m,
      p_coreOnAllocationFailureEnabled = m_coreOnAllocationFailureEnabled m,
      p_capacity = freshPoolCapacity X, p_currentBytes = 0, p_children = [],
      p_expired = False\<rparr>"

text \<open>The last owner of a pool lets go of it: from then on \<^verbatim>\<open>weak_ptr::lock()\<close> on the
  registry entry yields \<^verbatim>\<open>nullptr\<close>.\<close>

definition expire :: "pool_id \<Rightarrow> world \<Rightarrow> world" where
  "expire p w =
     (case heap w p of
        None \<Rightarrow> w
      | Some q \<Rightarrow> w\<lparr>heap := (heap w)(p \<mapsto> q\<lparr>p_expired := True\<rparr>)\<rparr>)"

subsection \<open>Invariants of a run\<close>

text \<open>What identifies a pool: its name, its kind and its parent.\<close>

definition ident :: "MemoryPool \<Rightarrow> string \<times> Kind \<times> pool_id option" where
  "ident q = (p_name q, p_kind q, p_parent q)"

text \<open>\<open>keeps w w'\<close>: every pool allocated in \<open>w\<close> is still there in \<open>w'\<close>, under the
  same name, kind and parent and with the children that it had, and no address of \<open>w\<close>
  is free again in \<open>w'\<close>.\<close>

definition keeps :: "world \<Rightarrow> world \<Rightarrow> bool" where
  "keeps w w' \<longleftrightarrow>
     nextAddr w \<le> nextAddr w' \<and>
     (\<forall>p q. p < nextAddr w \<longrightarrow> heap w p = Some q \<longrightarrow>
        (\<exists>q'. heap w' p = Some q' \<and> ident q' = ident q \<and>
              set (p_children q) \<subseteq> set (p_children q')))"

text \<open>The name of the spill pool.\<close>

definition kSpillName :: string where
  "kSpillName = ''_sys.spilling''"

text \<open>The default root of the instance, when there is one, is an allocated aggregate pool
  with the name of the default root.\<close>

definition rootOkAt :: "'a MemoryManager option \<Rightarrow> world \<Rightarrow> bool" where
  "rootOkAt inst w \<longleftrightarrow>
     (case inst of
        None \<Rightarrow> True
      | Some m \<Rightarrow>
          m_defaultRoot m < nextAddr w \<and>
          (case heap w (m_defaultRoot m) of
             None \<Rightarrow> False
           | Some r \<Rightarrow> p_name r = kDefaultRootName \<and> p_kind r = kAggregate))"

text \<open>\<open>p\<close> is an allocated leaf pool named \<^verbatim>\<open>_sys.spilling\<close> whose parent is an allocated
  aggregate pool with the name of the default root, and \<open>p\<close> is one of the children of
  that pool.\<close>

definition isSpillPoolAt :: "world \<Rightarrow> pool_id \<Rightarrow> bool" where
  "isSpillPoolAt w p \<longleftrightarrow>
     p < nextAddr w \<and>
     (case heap w p of
        None \<Rightarrow> False
      | Some q \<Rightarrow>
          p_name q = kSpillName \<and> p_kind q = kLeaf \<and>
          (case p_parent q of
             None \<Rightarrow> False
           | Some root \<Rightarrow>
               root < nextAddr w \<and>
               (case heap w root of
                  None \<Rightarrow> False
                | Some r \<Rightarrow>
                    p_name r = kDefaultRootName \<and> p_kind r = kAggregate \<and>
                    p \<in> set (p_children r))))"

text \<open>The invariant of a process: the two conditions above, for the instance and for the
  static of \<^verbatim>\<open>spillMemoryPool()\<close> once it is set.\<close>

definition processOk :: "'a process \<Rightarrow> bool" where
  "processOk s \<longleftrightarrow>
     rootOkAt (kInstance s) (pworld s) \<and>
     (case spillPool s of None \<Rightarrow> True | Some p \<Rightarrow> isSpillPoolAt (pworld s) p)"

text \<open>What one call may change: all pools are kept, the default root of the instance stays
  in order, and the static of \<^verbatim>\<open>spillMemoryPool()\<close> is left alone or set for the first
  time, to a spill pool.\<close>

definition frames :: "'a process \<Rightarrow> 'a process \<Rightarrow> bool" where
  "frames s s' \<longleftrightarrow>
     keeps (pworld s) (pworld s') \<and>
     (rootOkAt (kInstance s) (pworld s) \<longrightarrow> rootOkAt (kInstance s') (pworld s')) \<and>
     (spillPool s' = spillPool s \<or>
      spillPool s = None \<and>
      (rootOkAt (kInstance s) (pworld s) \<longrightarrow>
         (\<exists>p. spillPool s' = Some p \<and> isSpillPoolAt (pworld s') p)))"

subsection \<open>Sample inputs\<close>

text \<open>
  A sample instantiation of the parameters, for running the model on concrete inputs.
  The state of its arbitrator is the capacity that is still free; a request that fits is
  granted in full, any other is refused, and a shrink of one pool takes back all of its
  capacity.
\<close>

definition sampleExternal :: "u64 external" where
  "sampleExternal =
     \<lparr>kMaxMemory = 0x7FFFFFFFFFFFFFFF, kMinAlignment = 16, dchecksEnabled = True,
      numSharedLeafPoolsFlag = 2,
      alignmentCheck = (\<lambda>bytes al. 16 \<le> al \<and> al \<le> 64),
      arbitratorCreate = (\<lambda>cfg. Some (cfg_capacity cfg)),
      freshPoolCapacity = 0,
      growCapacity = (\<lambda>a h p n.
         case h p of
           None \<Rightarrow> (a, [])
         | Some q \<Rightarrow> if n \<le> a then (a - n, [(p, p_capacity q + n)]) else (a, [])),
      growCapacityFrom = (\<lambda>a h p cs n.
         case h p of
           None \<Rightarrow> (False, a, [])
         | Some q \<Rightarrow> if n \<le> a then (True, a - n, [(p, p_capacity q + n)]) else (False, a, [])),
      shrinkCapacity = (\<lambda>a h p n.
         case h p of None \<Rightarrow> (a, []) | Some q \<Rightarrow> (a + p_capacity q, [(p, 0)])),
      shrinkCapacityFrom = (\<lambda>a h ps n. (0, a, [])),
      threadIdHash = of_nat\<rparr>"

definition sampleOptions :: MemoryManagerOptions where
  "sampleOptions =
     \<lparr>alignment = 1, capacity = 1024, queryMemoryCapacity = 512,
      memoryPoolInitCapacity = 128, memoryPoolTransferCapacity = 32,
      memoryReclaimWaitMs = 0, arbitratorKind = ''SHARED'',
      arbitrationStateCheckCb = None,
      allocator = Some \<lparr>alloc_capacity = 1024, alloc_totalUsedBytes = 0\<rparr>,
      trackDefaultUsage = True, checkUsageLeak = True, debugEnabled = False,
      coreOnAllocationFailureEnabled = False\<rparr>"

text \<open>Options whose capacity is negative and equal to the allocator's, and options
  whose capacity differs from the allocator's.\<close>

definition negativeOptions :: MemoryManagerOptions where
  "negativeOptions =
     sampleOptions\<lparr>capacity := - 1,
                   allocator := Some \<lparr>alloc_capacity = - 1, alloc_totalUsedBytes = 0\<rparr>\<rparr>"

definition mismatchOptions :: MemoryManagerOptions where
  "mismatchOptions =
     sampleOptions\<lparr>allocator := Some \<lparr>alloc_capacity = 2048, alloc_totalUsedBytes = 0\<rparr>\<rparr>"

definition emptyWorld :: world where
  "emptyWorld = \<lparr>heap = Map.empty, nextAddr = 0, rootPoolId = 0, leafPoolId = 0\<rparr>"

text \<open>The manager and the state that the constructor builds from the sample options
  in the empty state: the default root at address 0 and two shared leaf pools.\<close>

definition sampleManager :: "u64 MemoryManager" where
  "sampleManager =
     \<lparr>m_capacity = 1024,
      m_allocator = \<lparr>alloc_capacity = 1024, alloc_totalUsedBytes = 0\<rparr>,
      m_poolInitCapacity = 128, m_arbitrator = 512, m_alignment = 16,
      m_checkUsageLeak = True, m_debugEnabled = False,
      m_coreOnAllocationFailureEnabled = False, m_defaultRoot = 0,
      m_sharedLeafPools = [1, 2], m_pools = []\<rparr>"

text \<open>A pool object with the settings of the sample manager.\<close>

definition samplePool :: "string \<Rightarrow> Kind \<Rightarrow> pool_id option \<Rightarrow> i64 \<Rightarrow> pool_id list \<Rightarrow> MemoryPool" where
  "samplePool nm k par c children =
     \<lparr>p_name = nm, p_kind = k, p_parent = par, p_reclaimer = None, p_alignment = 16,
      p_maxCapacity = 0x7FFFFFFFFFFFFFFF, p_trackUsage = True, p_threadSafe = True,
      p_debugEnabled = False, p_coreOnAllocationFailureEnabled = False,
      p_capacity = c, p_currentBytes = 0, p_children = children, p_expired = False\<rparr>"

text \<open>The state after the construction of the sample manager.\<close>

definition sampleWorld :: world where
  "sampleWorld =
     \<lparr>heap = [0 \<mapsto> samplePool ''__default_root__'' kAggregate None 0x7FFFFFFFFFFFFFFF [1, 2],
              1 \<mapsto> samplePool ''default_shared_leaf_pool_0'' kLeaf (Some 0) 0 [],
              2 \<mapsto> samplePool ''default_shared_leaf_pool_1'' kLeaf (Some 0) 0 []],
      nextAddr = 3, rootPoolId = 0, leafPoolId = 0\<rparr>"

text \<open>The sample manager and state after \<^verbatim>\<open>addRootPool("q1", 64, nullptr)\<close>.\<close>

definition q1Manager :: "u64 MemoryManager" where
  "q1Manager = sampleManager\<lparr>m_arbitrator := 448, m_pools := [(''q1'', 3)]\<rparr>"

definition q1World :: world where
  "q1World =
     sampleWorld\<lparr>heap := (heap sampleWorld)
                     (3 \<mapsto> (samplePool ''q1'' kAggregate None 64 [])\<lparr>p_maxCapacity := 64\<rparr>),
                 nextAddr := 4\<rparr>"

text \<open>The sample parameters for a build without \<^verbatim>\<open>VELOX_DCHECK\<close>.\<close>

definition releaseExternal :: "u64 external" where
  "releaseExternal = sampleExternal\<lparr>dchecksEnabled := False\<rparr>"

text \<open>The state with the root pool q1 in which q1 has 8 bytes in use.\<close>

definition busyWorld :: world where
  "busyWorld =
     q1World\<lparr>heap := (heap q1World)
       (3 \<mapsto> (samplePool ''q1'' kAggregate None 64 [])\<lparr>p_maxCapacity := 64, p_currentBytes := 8\<rparr>)\<rparr>"

text \<open>The sample manager and state after \<^verbatim>\<open>addRootPool("default_root_0", 64, nullptr)\<close>.\<close>

definition namedManager :: "u64 MemoryManager" where
  "namedManager = sampleManager\<lparr>m_arbitrator := 448, m_pools := [(''default_root_0'', 3)]\<rparr>"

definition namedWorld :: world where
  "namedWorld =
     sampleWorld\<lparr>heap := (heap sampleWorld)
                     (3 \<mapsto> (samplePool ''default_root_0'' kAggregate None 64 [])\<lparr>p_maxCapacity := 64\<rparr>),
                 nextAddr := 4\<rparr>"

text \<open>The state after the sample manager has added a leaf pool named \<^verbatim>\<open>_sys.spilling\<close>,
  at address 3.\<close>

definition spillWorld :: world where
  "spillWorld =
     sampleWorld\<lparr>heap := (heap sampleWorld)
                     (3 \<mapsto> samplePool ''_sys.spilling'' kLeaf (Some 0) 0 [],
                      0 \<mapsto> samplePool ''__default_root__'' kAggregate None 0x7FFFFFFFFFFFFFFF
                             [1, 2, 3]),
                 nextAddr := 4\<rparr>"

text \<open>A process at its start: no pools, no instance, the statics not initialised.\<close>

definition startProcess :: "u64 process" where
  "startProcess = \<lparr>pworld = emptyWorld, kInstance = None, spillPool = None\<rparr>"

section \<open>Properties\<close>

subsection \<open>What an arbitrator call leaves alone\<close>

lemma applyCapacities_None: "applyCapacities ups h p = None \<longleftrightarrow> h p = None"
proof (induction ups arbitrary: h)
  case Nil
  show ?case by simp
next
  case (Cons u us)
  obtain r c where u: "u = (r, c)" by (cases u)
  show ?case
  proof (cases "h r")
    case None
    with u show ?thesis by (simp add: Cons.IH)
  next
    case (Some q)
    with u show ?thesis by (simp add: Cons.IH)
  qed
qed

lemma applyCapacities_Some:
  "h p = Some q \<Longrightarrow> \<exists>c. applyCapacities ups h p = Some (q\<lparr>p_capacity := c\<rparr>)"
proof (induction ups arbitrary: h q)
  case Nil
  have "q = q\<lparr>p_capacity := p_capacity q\<rparr>" by simp
  with Nil have "applyCapacities [] h p = Some (q\<lparr>p_capacity := p_capacity q\<rparr>)" by simp
  then show ?case by (rule exI)
next
  case (Cons u us)
  obtain r c where u: "u = (r, c)" by (cases u)
  show ?case
  proof (cases "h r")
    case None
    with u have "applyCapacities (u # us) h = applyCapacities us h" by simp
    moreover have "\<exists>c. applyCapacities us h p = Some (q\<lparr>p_capacity := c\<rparr>)"
      using Cons.prems by (rule Cons.IH)
    ultimately show ?thesis by simp
  next
    case (Some q')
    with u have e: "applyCapacities (u # us) h = applyCapacities us (h(r \<mapsto> q'\<lparr>p_capacity := c\<rparr>))"
      by simp
    show ?thesis
    proof (cases "r = p")
      case True
      with Some Cons.prems have "(h(r \<mapsto> q'\<lparr>p_capacity := c\<rparr>)) p = Some (q\<lparr>p_capacity := c\<rparr>)"
        by simp
      then have "\<exists>c'. applyCapacities us (h(r \<mapsto> q'\<lparr>p_capacity := c\<rparr>)) p = Some (q\<lparr>p_capacity := c, p_capacity := c'\<rparr>)"
        by (rule Cons.IH)
      then obtain c' where
        "applyCapacities us (h(r \<mapsto> q'\<lparr>p_capacity := c\<rparr>)) p = Some (q\<lparr>p_capacity := c, p_capacity := c'\<rparr>)"
        by blast
      with e have "applyCapacities (u # us) h p = Some (q\<lparr>p_capacity := c'\<rparr>)" by simp
      then show ?thesis by (rule exI)
    next
      case False
      with Cons.prems have "(h(r \<mapsto> q'\<lparr>p_capacity := c\<rparr>)) p = Some q" by simp
      then have "\<exists>c'. applyCapacities us (h(r \<mapsto> q'\<lparr>p_capacity := c\<rparr>)) p = Some (q\<lparr>p_capacity := c'\<rparr>)"
        by (rule Cons.IH)
      with e show ?thesis by simp
    qed
  qed
qed

subsection \<open>The constructor: claims C9 and C3\<close>

lemma newMemoryPoolImpl_heap:
  "newMemoryPoolImpl X init w = (p, w1) \<Longrightarrow>
     p = nextAddr w \<and> nextAddr w1 = Suc (nextAddr w) \<and>
     rootPoolId w1 = rootPoolId w \<and> leafPoolId w1 = leafPoolId w \<and>
     heap w1 = (heap w)(p \<mapsto> init\<lparr>p_capacity := freshPoolCapacity X, p_currentBytes := 0,
                                   p_children := [], p_expired := False\<rparr>)"
  by (auto simp: newMemoryPoolImpl_def)

lemma of_char_digit: "n < 10 \<Longrightarrow> of_char (digit n) = 48 + n"
proof -
  assume n: "n < 10"
  have "(of_char (digit n) :: nat) = map of_char ''0123456789'' ! n"
    unfolding digit_def using n by (intro nth_map [symmetric]) simp
  also have "map of_char ''0123456789'' = [48 ..< 58 :: nat]" by (simp add: upt_rec)
  also have "[48 ..< 58 :: nat] ! n = 48 + n" using n by (intro nth_upt) simp
  finally show ?thesis .
qed

lemma decimalValue_snoc: "decimalValue (ds @ [c]) = 10 * decimalValue ds + (of_char c - 48)"
  by (simp add: decimalValue_def)

lemma decimalValue_decimal: "decimalValue (decimal n) = n"
proof (induction n rule: decimal.induct)
  case (1 n)
  show ?case
  proof (cases "n < 10")
    case True
    then have "decimal n = [digit n]" by (simp add: decimal.simps)
    with True show ?thesis by (simp add: decimalValue_def of_char_digit)
  next
    case False
    then have d: "decimal n = decimal (n div 10) @ [digit (n mod 10)]"
      by (subst decimal.simps) simp
    from False have "decimalValue (decimal (n div 10)) = n div 10" by (rule "1.IH")
    moreover have "of_char (digit (n mod 10)) = 48 + n mod 10" by (rule of_char_digit) simp
    ultimately show ?thesis by (simp add: d decimalValue_snoc)
  qed
qed

lemma decimal_inj: "decimal a = decimal b \<Longrightarrow> a = b"
  by (metis decimalValue_decimal)

lemma liveNames_mem:
  "nm \<in> set (liveNames h cs) \<longleftrightarrow>
     (\<exists>c q. c \<in> set cs \<and> h c = Some q \<and> \<not> p_expired q \<and> p_name q = nm)"
proof (induction cs)
  case Nil
  show ?case by simp
next
  case (Cons c cs)
  show ?case
  proof (cases "h c")
    case None
    with Cons show ?thesis by auto
  next
    case (Some q)
    with Cons show ?thesis by (cases "p_expired q") auto
  qed
qed

lemma liveNames_cong:
  assumes "\<And>c. c \<in> set cs \<Longrightarrow> h' c = h c"
  shows "liveNames h' cs = liveNames h cs"
  using assms
proof (induction cs)
  case Nil
  show ?case by simp
next
  case (Cons c cs)
  have "h' c = h c" by (rule Cons.prems) simp
  moreover have "liveNames h' cs = liveNames h cs" by (rule Cons.IH) (simp add: Cons.prems)
  ultimately show ?case by (cases "h c") simp_all
qed

lemma liveNames_append: "liveNames h (cs @ ds) = liveNames h cs @ liveNames h ds"
proof (induction cs)
  case Nil
  show ?case by simp
next
  case (Cons c cs)
  then show ?case by (cases "h c") simp_all
qed

lemma addLeafChild_duplicate:
  assumes "heap w root = Some r" "nm \<in> set (liveNames (heap w) (p_children r))"
  shows "addLeafChild X root nm ts rec w = (Inl (DuplicateChildName nm), w)"
  using assms by (simp add: addLeafChild_def)

lemma addLeafChild_fresh:
  assumes "heap w root = Some r" "nm \<notin> set (liveNames (heap w) (p_children r))"
  shows "addLeafChild X root nm ts rec w =
           (Inr (nextAddr w),
            w\<lparr>heap := (heap w)
                 (nextAddr w \<mapsto>
                    r\<lparr>p_name := nm, p_kind := kLeaf, p_parent := Some root,
                      p_reclaimer := rec, p_maxCapacity := kMaxMemory X,
                      p_threadSafe := ts, p_capacity := freshPoolCapacity X,
                      p_currentBytes := 0, p_children := [], p_expired := False\<rparr>,
                  root \<mapsto> r\<lparr>p_children := p_children r @ [nextAddr w]\<rparr>),
              nextAddr := Suc (nextAddr w)\<rparr>)"
  using assms by (simp add: addLeafChild_def newMemoryPoolImpl_def)

lemma addLeafChild_step:
  assumes r: "heap w root = Some r" and lt: "root < nextAddr w"
    and cs: "\<And>c. c \<in> set (p_children r) \<Longrightarrow> c < nextAddr w \<and> c \<noteq> root"
    and nm: "nm \<notin> set (liveNames (heap w) (p_children r))"
  shows "\<exists>w1 r1. addLeafChild X root nm ts rec w = (Inr (nextAddr w), w1) \<and>
           heap w1 root = Some r1 \<and> nextAddr w1 = Suc (nextAddr w) \<and>
           p_children r1 = p_children r @ [nextAddr w] \<and>
           liveNames (heap w1) (p_children r1) = liveNames (heap w) (p_children r) @ [nm]"
proof -
  let ?c = "nextAddr w"
  let ?child = "r\<lparr>p_name := nm, p_kind := kLeaf, p_parent := Some root,
                      p_reclaimer := rec, p_maxCapacity := kMaxMemory X,
                      p_threadSafe := ts, p_capacity := freshPoolCapacity X,
                      p_currentBytes := 0, p_children := [], p_expired := False\<rparr>"
  let ?r1 = "r\<lparr>p_children := p_children r @ [?c]\<rparr>"
  let ?h1 = "(heap w)(?c \<mapsto> ?child, root \<mapsto> ?r1)"
  let ?w1 = "w\<lparr>heap := ?h1, nextAddr := Suc ?c\<rparr>"
  note e = addLeafChild_fresh [OF r nm, of X ts rec]
  from lt have ne: "?c \<noteq> root" by simp
  have old: "liveNames ?h1 (p_children r) = liveNames (heap w) (p_children r)"
  proof (rule liveNames_cong)
    fix c assume "c \<in> set (p_children r)"
    from cs [OF this] show "?h1 c = heap w c" by simp
  qed
  from ne have new: "liveNames ?h1 [?c] = [nm]" by simp
  have "liveNames ?h1 (p_children ?r1) = liveNames (heap w) (p_children r) @ [nm]"
    using old new by (simp add: liveNames_append)
  moreover have "heap ?w1 root = Some ?r1" by simp
  ultimately show ?thesis using e by simp
qed

lemma addLeafPool_ok:
  assumes "heap w (m_defaultRoot m) = Some r" "nm \<noteq> []"
    "nm \<notin> set (liveNames (heap w) (p_children r))"
  shows "\<exists>child w1. addLeafPool X nm ts m w = (Inr child, w1)"
proof -
  from assms(2) have "addLeafPool X nm ts m w = addLeafChild X (m_defaultRoot m) nm ts None w"
    by (simp add: addLeafPool_def leafPoolName_def)
  with addLeafChild_fresh [OF assms(1,3), of X ts None] show ?thesis by simp
qed

lemma addSharedLeafPools_ok:
  assumes "heap w (m_defaultRoot m) = Some r" "m_defaultRoot m < nextAddr w"
    and "\<And>c. c \<in> set (p_children r) \<Longrightarrow> c < nextAddr w \<and> c \<noteq> m_defaultRoot m"
    and "distinct is"
    and "\<And>i. i \<in> set is \<Longrightarrow>
           ''default_shared_leaf_pool_'' @ decimal i \<notin> set (liveNames (heap w) (p_children r))"
  shows "\<exists>m' w'. addSharedLeafPools X is m w = (Inr m', w')"
  using assms
proof (induction "is" arbitrary: m w r)
  case Nil
  show ?case by simp
next
  case (Cons i "is")
  let ?nm = "''default_shared_leaf_pool_'' @ decimal i"
  let ?root = "m_defaultRoot m"
  have nm: "?nm \<notin> set (liveNames (heap w) (p_children r))" by (rule Cons.prems(5)) simp
  from addLeafChild_step [OF Cons.prems(1,2) Cons.prems(3) nm, of X True None]
  obtain w1 r1 where
    a: "addLeafChild X ?root ?nm True None w = (Inr (nextAddr w), w1)"
    and r1: "heap w1 ?root = Some r1" and n1: "nextAddr w1 = Suc (nextAddr w)"
    and c1: "p_children r1 = p_children r @ [nextAddr w]"
    and l1: "liveNames (heap w1) (p_children r1) = liveNames (heap w) (p_children r) @ [?nm]"
    by blast
  have e: "addLeafPool X ?nm True m w = (Inr (nextAddr w), w1)"
    using a by (simp add: addLeafPool_def leafPoolName_def)
  let ?m1 = "m\<lparr>m_sharedLeafPools := m_sharedLeafPools m @ [nextAddr w]\<rparr>"
  have "\<exists>m' w'. addSharedLeafPools X is ?m1 w1 = (Inr m', w')"
  proof (rule Cons.IH)
    show "heap w1 (m_defaultRoot ?m1) = Some r1" using r1 by simp
    show "m_defaultRoot ?m1 < nextAddr w1" using Cons.prems(2) n1 by simp
    show "c < nextAddr w1 \<and> c \<noteq> m_defaultRoot ?m1" if "c \<in> set (p_children r1)" for c
    proof (cases "c = nextAddr w")
      case True
      with Cons.prems(2) n1 show ?thesis by simp
    next
      case False
      with that c1 have "c \<in> set (p_children r)" by simp
      from Cons.prems(3) [OF this] n1 show ?thesis by simp
    qed
    show "distinct is" using Cons.prems(4) by simp
    show "''default_shared_leaf_pool_'' @ decimal j \<notin> set (liveNames (heap w1) (p_children r1))"
      if "j \<in> set is" for j
    proof -
      from that Cons.prems(4) have "j \<noteq> i" by auto
      then have "decimal j \<noteq> decimal i" using decimal_inj by blast
      moreover have "''default_shared_leaf_pool_'' @ decimal j \<notin> set (liveNames (heap w) (p_children r))"
        by (rule Cons.prems(5)) (simp add: that)
      ultimately show ?thesis by (simp add: l1)
    qed
  qed
  with e show ?case by simp
qed

lemma addSharedLeafPools_Inr:
  "addSharedLeafPools X is m w = (Inr m', w') \<Longrightarrow>
     \<exists>ps. length ps = length is \<and> m' = m\<lparr>m_sharedLeafPools := m_sharedLeafPools m @ ps\<rparr>"
proof (induction "is" arbitrary: m w)
  case Nil
  then show ?case by simp
next
  case (Cons i "is")
  obtain r w1 where a: "addLeafPool X (''default_shared_leaf_pool_'' @ decimal i) True m w = (r, w1)"
    by (cases "addLeafPool X (''default_shared_leaf_pool_'' @ decimal i) True m w")
  show ?case
  proof (cases r)
    case (Inl e)
    with a Cons.prems show ?thesis by simp
  next
    case (Inr p)
    with a Cons.prems have
      "addSharedLeafPools X is (m\<lparr>m_sharedLeafPools := m_sharedLeafPools m @ [p]\<rparr>) w1 = (Inr m', w')"
      by simp
    from Cons.IH [OF this] obtain ps where
      "length ps = length is"
      "m' = m\<lparr>m_sharedLeafPools := m_sharedLeafPools m @ [p]\<rparr>
              \<lparr>m_sharedLeafPools := m_sharedLeafPools (m\<lparr>m_sharedLeafPools := m_sharedLeafPools m @ [p]\<rparr>) @ ps\<rparr>"
      by blast
    then have "length (p # ps) = length (i # is) \<and>
        m' = m\<lparr>m_sharedLeafPools := m_sharedLeafPools m @ (p # ps)\<rparr>" by simp
    then show ?thesis by blast
  qed
qed

lemma grow_root:
  "heap w p \<noteq> None \<Longrightarrow> heap (grow p b w) p \<noteq> None"
  by (auto simp: grow_def)

lemma ctor_Inr:
  assumes "MemoryManager_ctor X options w = (Inr m, w')"
  shows "\<exists>alloc a ps.
           allocator options = Some alloc \<and>
           arbitratorCreate X (arbitratorConfig options) = Some a \<and>
           alloc_capacity alloc = capacity options \<and>
           0 \<le> sint (capacity options) \<and>
           alignmentCheck X 0 (std_max_u16 (kMinAlignment X) (alignment options)) \<and>
           length ps = nat (std_max_int 1 (sint (numSharedLeafPoolsFlag X))) \<and>
           m = \<lparr>m_capacity = capacity options, m_allocator = alloc,
                m_poolInitCapacity = memoryPoolInitCapacity options,
                m_arbitrator = a,
                m_alignment = std_max_u16 (kMinAlignment X) (alignment options),
                m_checkUsageLeak = checkUsageLeak options,
                m_debugEnabled = debugEnabled options,
                m_coreOnAllocationFailureEnabled = coreOnAllocationFailureEnabled options,
                m_defaultRoot = nextAddr w, m_sharedLeafPools = ps, m_pools = []\<rparr>"
proof -
  from assms obtain alloc where al: "allocator options = Some alloc"
    by (cases "allocator options") (auto simp: MemoryManager_ctor_def)
  from assms al obtain a where a: "arbitratorCreate X (arbitratorConfig options) = Some a"
    by (cases "arbitratorCreate X (arbitratorConfig options)")
       (auto simp: MemoryManager_ctor_def newMemoryPoolImpl_def Let_def)
  from assms al a have c1: "alloc_capacity alloc = capacity options"
    and c2: "0 \<le> sint (capacity options)"
    and c3: "alignmentCheck X 0 (std_max_u16 (kMinAlignment X) (alignment options))"
    by (auto simp: MemoryManager_ctor_def newMemoryPoolImpl_def Let_def split: if_splits)
  let ?m0 = "\<lparr>m_capacity = capacity options, m_allocator = alloc,
                m_poolInitCapacity = memoryPoolInitCapacity options,
                m_arbitrator = a,
                m_alignment = std_max_u16 (kMinAlignment X) (alignment options),
                m_checkUsageLeak = checkUsageLeak options,
                m_debugEnabled = debugEnabled options,
                m_coreOnAllocationFailureEnabled = coreOnAllocationFailureEnabled options,
                m_defaultRoot = nextAddr w, m_sharedLeafPools = [], m_pools = []\<rparr>"
  from assms al a c1 c2 c3 obtain w1 where
    "addSharedLeafPools X [0 ..< nat (std_max_int 1 (sint (numSharedLeafPoolsFlag X)))] ?m0 w1
       = (Inr m, w')"
    by (auto simp: MemoryManager_ctor_def newMemoryPoolImpl_def Let_def split: if_splits)
  from addSharedLeafPools_Inr [OF this] obtain ps where
    "length ps = nat (std_max_int 1 (sint (numSharedLeafPoolsFlag X)))"
    "m = ?m0\<lparr>m_sharedLeafPools := m_sharedLeafPools ?m0 @ ps\<rparr>"
    by auto
  with al a c1 c2 c3 show ?thesis by simp
qed

lemma ctor_succeeds:
  assumes "ctorChecks X options"
  shows "\<exists>m w'. MemoryManager_ctor X options w = (Inr m, w')"
proof -
  from assms obtain alloc where al: "allocator options = Some alloc"
    by (cases "allocator options") (auto simp: ctorChecks_def)
  from assms al obtain a where a: "arbitratorCreate X (arbitratorConfig options) = Some a"
    by (auto simp: ctorChecks_def)
  from assms al have c: "alloc_capacity alloc = capacity options"
    "\<not> sint (capacity options) < 0"
    "alignmentCheck X 0 (std_max_u16 (kMinAlignment X) (alignment options))"
    by (auto simp: ctorChecks_def)
  let ?m0 = "\<lparr>m_capacity = capacity options, m_allocator = alloc,
                m_poolInitCapacity = memoryPoolInitCapacity options,
                m_arbitrator = a,
                m_alignment = std_max_u16 (kMinAlignment X) (alignment options),
                m_checkUsageLeak = checkUsageLeak options,
                m_debugEnabled = debugEnabled options,
                m_coreOnAllocationFailureEnabled = coreOnAllocationFailureEnabled options,
                m_defaultRoot = nextAddr w, m_sharedLeafPools = [], m_pools = []\<rparr>"
  obtain root w1 where n: "newMemoryPoolImpl X
                 \<lparr>p_name = kDefaultRootName, p_kind = kAggregate, p_parent = None,
                  p_reclaimer = None, p_alignment = std_max_u16 (kMinAlignment X) (alignment options),
                  p_maxCapacity = kMaxMemory X,
                  p_trackUsage = trackDefaultUsage options, p_threadSafe = True,
                  p_debugEnabled = debugEnabled options,
                  p_coreOnAllocationFailureEnabled = coreOnAllocationFailureEnabled options,
                  p_capacity = 0, p_currentBytes = 0, p_children = [], p_expired = False\<rparr> w = (root, w1)"
    by fastforce
  note h = newMemoryPoolImpl_heap [OF n]
  from h have root: "root = nextAddr w" by simp
  let ?w2 = "grow root (kMaxMemory X) w1"
  from h obtain r where r: "heap ?w2 root = Some r" "p_children r = []"
    by (auto simp: grow_def)
  from h have n2: "nextAddr ?w2 = Suc (nextAddr w)" by (auto simp: grow_def)
  have "\<exists>m w'. addSharedLeafPools X
          [0 ..< nat (std_max_int 1 (sint (numSharedLeafPoolsFlag X)))] ?m0 ?w2 = (Inr m, w')"
  proof (rule addSharedLeafPools_ok)
    show "heap ?w2 (m_defaultRoot ?m0) = Some r" using r unfolding root by simp
    show "m_defaultRoot ?m0 < nextAddr ?w2" using n2 root by simp
    show "c < nextAddr ?w2 \<and> c \<noteq> m_defaultRoot ?m0" if "c \<in> set (p_children r)" for c
      using that r by simp
    show "distinct [0 ..< nat (std_max_int 1 (sint (numSharedLeafPoolsFlag X)))]" by simp
    show "''default_shared_leaf_pool_'' @ decimal i \<notin> set (liveNames (heap ?w2) (p_children r))"
      for i using r by simp
  qed
  then obtain m w' where
    "addSharedLeafPools X [0 ..< nat (std_max_int 1 (sint (numSharedLeafPoolsFlag X)))] ?m0
       (grow root (kMaxMemory X) w1) = (Inr m, w')" by blast
  with al a c n root show ?thesis
    by (simp add: MemoryManager_ctor_def Let_def)
qed

lemma ctor_fails:
  assumes "\<not> ctorChecks X options"
  shows "\<exists>e. fst (MemoryManager_ctor X options w) = Inl e"
proof (cases "fst (MemoryManager_ctor X options w)")
  case (Inl e)
  then show ?thesis by blast
next
  case (Inr m)
  then have "MemoryManager_ctor X options w = (Inr m, snd (MemoryManager_ctor X options w))"
    by (metis prod.collapse)
  from ctor_Inr [OF this] have "ctorChecks X options"
    by (auto simp: ctorChecks_def)
  with assms show ?thesis by simp
qed

lemma std_max_u16_max: "std_max_u16 a b = max a b"
  by (auto simp: std_max_u16_def max_def)

lemma sint_std_min_i64: "sint (std_min_i64 a b) = min (sint a) (sint b)"
  by (auto simp: std_min_i64_def min_def)

lemma std_min_u64_min: "std_min_u64 a b = min a b"
  by (auto simp: std_min_u64_def min_def)

text \<open>
  Claim C9. For every manager that was constructed successfully, \<^verbatim>\<open>alignment()\<close>
  is the larger of \<^verbatim>\<open>kMinAlignment\<close> and the alignment asked for in the options. So
  it is never below \<^verbatim>\<open>kMinAlignment\<close>, and an alignment below the minimum is raised
  to the minimum.
\<close>

theorem alignment_at_least_min:
  assumes "MemoryManager_ctor X options w = (Inr m, w')"
  shows "MemoryManager_alignment m = max (kMinAlignment X) (alignment options) \<and>
         kMinAlignment X \<le> MemoryManager_alignment m \<and>
         (alignment options < kMinAlignment X \<longrightarrow> MemoryManager_alignment m = kMinAlignment X)"
proof -
  from ctor_Inr [OF assms]
  have "m_alignment m = std_max_u16 (kMinAlignment X) (alignment options)" by auto
  then have "MemoryManager_alignment m = max (kMinAlignment X) (alignment options)"
    by (simp add: MemoryManager_alignment_def std_max_u16_max)
  then show ?thesis by (auto simp: max_def)
qed

lemma sample_checks: "ctorChecks sampleExternal sampleOptions"
  by (simp add: ctorChecks_def sampleExternal_def sampleOptions_def arbitratorConfig_def
      std_max_u16_def)

text \<open>The sample options ask for alignment 1; the manager constructed from them reports
  the minimum, 16.\<close>

theorem alignment_at_least_min_witness:
  "\<exists>m w'. MemoryManager_ctor sampleExternal sampleOptions emptyWorld = (Inr m, w') \<and>
      alignment sampleOptions < kMinAlignment sampleExternal \<and>
      MemoryManager_alignment m = 16"
proof -
  from ctor_succeeds [OF sample_checks] obtain m w' where
    c: "MemoryManager_ctor sampleExternal sampleOptions emptyWorld = (Inr m, w')" by blast
  have lt: "alignment sampleOptions < kMinAlignment sampleExternal"
    by (simp add: sampleExternal_def sampleOptions_def)
  from alignment_at_least_min [OF c] lt
  have "MemoryManager_alignment m = kMinAlignment sampleExternal" by blast
  then have "MemoryManager_alignment m = 16" by (simp add: sampleExternal_def)
  with c lt show ?thesis by blast
qed

text \<open>
  Claim C3 says that construction succeeds whenever the capacity of the allocator equals
  the capacity of the options. With capacity \<open>-1\<close> on both sides the two are equal and
  the constructor fails on its next check, that the capacity is not negative.
\<close>

theorem ctor_equal_capacities_counterexample:
  "allocator negativeOptions = Some \<lparr>alloc_capacity = capacity negativeOptions,
                                     alloc_totalUsedBytes = 0\<rparr> \<and>
   fst (MemoryManager_ctor sampleExternal negativeOptions emptyWorld) = Inl NegativeCapacity"
  by (simp add: negativeOptions_def sampleOptions_def sampleExternal_def emptyWorld_def
      MemoryManager_ctor_def newMemoryPoolImpl_def arbitratorConfig_def Let_def)

text \<open>
  Claim C3, amended. Construction fails when the capacity the allocator reports differs
  from the capacity of the options. It succeeds exactly when all checks of the
  constructor pass: the allocator is there and its capacity equals the capacity of the
  options, the arbitrator was created, the capacity is not negative, and the alignment
  check passes. The arbitrator of a constructed manager is the one created from the
  configuration whose capacity is the smaller of \<^verbatim>\<open>queryMemoryCapacity\<close> and
  \<^verbatim>\<open>capacity\<close>.
\<close>

theorem ctor_capacity_check:
  "(\<forall>alloc. allocator options = Some alloc \<longrightarrow> alloc_capacity alloc \<noteq> capacity options \<longrightarrow>
      (\<exists>e. fst (MemoryManager_ctor X options w) = Inl e)) \<and>
   ((\<exists>m. fst (MemoryManager_ctor X options w) = Inr m) \<longleftrightarrow>
      (\<exists>alloc. allocator options = Some alloc \<and> alloc_capacity alloc = capacity options) \<and>
      arbitratorCreate X (arbitratorConfig options) \<noteq> None \<and>
      0 \<le> sint (capacity options) \<and>
      alignmentCheck X 0 (max (kMinAlignment X) (alignment options))) \<and>
   (\<forall>m. fst (MemoryManager_ctor X options w) = Inr m \<longrightarrow>
      arbitratorCreate X (arbitratorConfig options) = Some (m_arbitrator m) \<and>
      sint (cfg_capacity (arbitratorConfig options)) =
        min (sint (queryMemoryCapacity options)) (sint (capacity options)))"
proof -
  have checks: "ctorChecks X options \<longleftrightarrow>
      (\<exists>alloc. allocator options = Some alloc \<and> alloc_capacity alloc = capacity options) \<and>
      arbitratorCreate X (arbitratorConfig options) \<noteq> None \<and>
      0 \<le> sint (capacity options) \<and>
      alignmentCheck X 0 (max (kMinAlignment X) (alignment options))"
    by (auto simp: ctorChecks_def std_max_u16_max split: option.splits)
  have ok: "(\<exists>m. fst (MemoryManager_ctor X options w) = Inr m) \<longleftrightarrow> ctorChecks X options"
  proof
    assume "\<exists>m. fst (MemoryManager_ctor X options w) = Inr m"
    then obtain m where m: "fst (MemoryManager_ctor X options w) = Inr m" by blast
    show "ctorChecks X options"
    proof (rule ccontr)
      assume "\<not> ctorChecks X options"
      from ctor_fails [OF this, of w] m show False by auto
    qed
  next
    assume "ctorChecks X options"
    from ctor_succeeds [OF this, of w] show "\<exists>m. fst (MemoryManager_ctor X options w) = Inr m"
      by auto
  qed
  have differ: "\<exists>e. fst (MemoryManager_ctor X options w) = Inl e"
    if "allocator options = Some alloc" "alloc_capacity alloc \<noteq> capacity options" for alloc
  proof -
    from that have "\<not> ctorChecks X options" by (simp add: ctorChecks_def)
    then show ?thesis by (rule ctor_fails)
  qed
  have arb: "arbitratorCreate X (arbitratorConfig options) = Some (m_arbitrator m)"
    if "fst (MemoryManager_ctor X options w) = Inr m" for m
  proof -
    from that have "MemoryManager_ctor X options w = (Inr m, snd (MemoryManager_ctor X options w))"
      by (metis prod.collapse)
    from ctor_Inr [OF this] show ?thesis by auto
  qed
  have cap: "sint (cfg_capacity (arbitratorConfig options)) =
        min (sint (queryMemoryCapacity options)) (sint (capacity options))"
    by (simp add: arbitratorConfig_def sint_std_min_i64)
  from checks ok differ arb cap show ?thesis by blast
qed

text \<open>With an allocator of capacity 2048 and options of capacity 1024 the constructor
  fails; with the sample options it succeeds, and the sample arbitrator is created with
  capacity \<open>min 512 1024 = 512\<close>.\<close>

theorem ctor_capacity_check_witness:
  "(allocator mismatchOptions = Some \<lparr>alloc_capacity = 2048, alloc_totalUsedBytes = 0\<rparr> \<and>
    capacity mismatchOptions = 1024 \<and>
    (\<exists>e. fst (MemoryManager_ctor sampleExternal mismatchOptions emptyWorld) = Inl e)) \<and>
   (\<exists>m. fst (MemoryManager_ctor sampleExternal sampleOptions emptyWorld) = Inr m \<and>
      m_arbitrator m = 512)"
proof -
  have a: "allocator mismatchOptions = Some \<lparr>alloc_capacity = 2048, alloc_totalUsedBytes = 0\<rparr>"
    and b: "capacity mismatchOptions = 1024"
    and c: "alloc_capacity \<lparr>alloc_capacity = 2048, alloc_totalUsedBytes = 0\<rparr> \<noteq> capacity mismatchOptions"
    by (simp_all add: mismatchOptions_def sampleOptions_def)
  from ctor_capacity_check [of mismatchOptions sampleExternal emptyWorld] a c
  have f: "\<exists>e. fst (MemoryManager_ctor sampleExternal mismatchOptions emptyWorld) = Inl e"
    by blast
  have s: "(\<exists>alloc. allocator sampleOptions = Some alloc \<and> alloc_capacity alloc = capacity sampleOptions) \<and>
      arbitratorCreate sampleExternal (arbitratorConfig sampleOptions) \<noteq> None \<and>
      0 \<le> sint (capacity sampleOptions) \<and>
      alignmentCheck sampleExternal 0 (max (kMinAlignment sampleExternal) (alignment sampleOptions))"
    by (simp add: sampleExternal_def sampleOptions_def arbitratorConfig_def)
  from ctor_capacity_check [of sampleOptions sampleExternal emptyWorld] s
  obtain m where m: "fst (MemoryManager_ctor sampleExternal sampleOptions emptyWorld) = Inr m"
    by blast
  with ctor_capacity_check [of sampleOptions sampleExternal emptyWorld]
  have "arbitratorCreate sampleExternal (arbitratorConfig sampleOptions) = Some (m_arbitrator m)"
    by blast
  then have "m_arbitrator m = 512"
    by (simp add: sampleExternal_def sampleOptions_def arbitratorConfig_def std_min_i64_def)
  with a b f m show ?thesis by blast
qed

subsection \<open>Root pools: claims C4, C5 and C6\<close>

lemma rootPoolName_world:
  "heap (snd (rootPoolName nm w)) = heap w \<and> nextAddr (snd (rootPoolName nm w)) = nextAddr w \<and>
   leafPoolId (snd (rootPoolName nm w)) = leafPoolId w"
  by (simp add: rootPoolName_def)

lemma rootPoolName_nonempty: "nm \<noteq> [] \<Longrightarrow> rootPoolName nm w = (nm, w)"
  by (simp add: rootPoolName_def)

lemma addRootPool_duplicate:
  assumes "pools_find (m_pools m) (fst (rootPoolName nm w)) \<noteq> None"
  shows "addRootPool X nm cap rec m w =
           (Inl (DuplicateRootPoolName (fst (rootPoolName nm w))), m, snd (rootPoolName nm w))"
  using assms by (simp add: addRootPool_def split_beta)

lemma addRootPool_fresh:
  assumes "pools_find (m_pools m) (fst (rootPoolName nm w)) = None"
  shows "addRootPool X nm cap rec m w =
     (let poolName = fst (rootPoolName nm w); w0 = snd (rootPoolName nm w);
          pool = nextAddr w;
          h1 = (heap w)(pool \<mapsto> rootPoolInit X poolName cap rec m);
          m1 = m\<lparr>m_pools := m_pools m @ [(poolName, pool)]\<rparr>;
          w1 = w0\<lparr>heap := h1, nextAddr := Suc (nextAddr w)\<rparr>
      in if freshPoolCapacity X \<noteq> 0 then (Inl PoolCapacityNotZero, m1, w1)
         else (Inr pool,
               m1\<lparr>m_arbitrator := fst (growCapacity X (m_arbitrator m) h1 pool
                                          (std_min_u64 (m_poolInitCapacity m) cap))\<rparr>,
               w1\<lparr>heap := applyCapacities
                          (snd (growCapacity X (m_arbitrator m) h1 pool
                                  (std_min_u64 (m_poolInitCapacity m) cap))) h1\<rparr>))"
  using assms
  by (simp add: addRootPool_def split_beta newMemoryPoolImpl_def rootPoolInit_def
      pools_emplace_def pools_find_def rootPoolName_world Let_def)

lemma uint_of_nonneg_sint:
  fixes x :: "64 word"
  assumes "0 \<le> sint x"
  shows "uint x = sint x"
proof -
  have nb: "\<not> bit (uint x) 63" using assms bit_last_iff [of x] by (simp add: bit_uint_iff)
  have s: "sint x = take_bit 63 (uint x)"
    using nb by (simp add: sint_uint signed_take_bit_eq_if_positive)
  have "take_bit (Suc 63) (uint x) = 2 ^ 63 * of_bool (bit (uint x) 63) + take_bit 63 (uint x)"
    by (rule take_bit_Suc_from_most)
  with nb have "take_bit 64 (uint x) = take_bit 63 (uint x)" by simp
  moreover have "uint x < 2 ^ 64" using uint_lt2p [of x] by simp
  then have "take_bit 64 (uint x) = uint x"
    by (intro take_bit_int_eq_self) simp_all
  ultimately show ?thesis using s by simp
qed

lemma uint_min_word:
  fixes a b :: "64 word"
  shows "uint (min a b) = min (uint a) (uint b)"
  by (simp add: min_def word_le_def)

lemma addRootPool_Inr:
  assumes "addRootPool X nm cap rec m w = (Inr pool, m', w')"
  shows "pools_find (m_pools m) (fst (rootPoolName nm w)) = None \<and>
         freshPoolCapacity X = 0 \<and> pool = nextAddr w \<and>
         m' = m\<lparr>m_pools := m_pools m @ [(fst (rootPoolName nm w), pool)],
                m_arbitrator := fst (growCapacity X (m_arbitrator m)
                   ((heap w)(pool \<mapsto> rootPoolInit X (fst (rootPoolName nm w)) cap rec m)) pool
                   (std_min_u64 (m_poolInitCapacity m) cap))\<rparr> \<and>
         w' = (snd (rootPoolName nm w))
                \<lparr>heap := applyCapacities
                   (snd (growCapacity X (m_arbitrator m)
                      ((heap w)(pool \<mapsto> rootPoolInit X (fst (rootPoolName nm w)) cap rec m)) pool
                      (std_min_u64 (m_poolInitCapacity m) cap)))
                   ((heap w)(pool \<mapsto> rootPoolInit X (fst (rootPoolName nm w)) cap rec m)),
                 nextAddr := Suc (nextAddr w)\<rparr>"
proof -
  have f: "pools_find (m_pools m) (fst (rootPoolName nm w)) = None"
  proof (rule ccontr)
    assume "pools_find (m_pools m) (fst (rootPoolName nm w)) \<noteq> None"
    from addRootPool_duplicate [OF this, of X cap rec] assms show False by simp
  qed
  from addRootPool_fresh [OF f, of X cap rec] assms
  have z: "freshPoolCapacity X = 0"
    by (cases "freshPoolCapacity X = 0") (simp_all add: Let_def)
  from addRootPool_fresh [OF f, of X cap rec] assms z f show ?thesis
    by (simp add: Let_def)
qed

text \<open>
  Claim C4. When \<^verbatim>\<open>addRootPool\<close> succeeds, the pool it returns was created at a new
  address with granted capacity 0 (\<open>h1\<close> is the heap at that moment, equal to the old
  one elsewhere), it was entered into the registry under its name, and then the
  arbitrator was asked to grow it, in that heap, by the smaller of
  \<^verbatim>\<open>poolInitCapacity_\<close> and the capacity given; the manager and the heap returned are
  what this one call of the arbitrator made of them. The minimum is taken on unsigned
  64-bit values, as \<^verbatim>\<open>std::min<uint64_t>\<close> does; for a capacity that is not negative
  it is the minimum of the two numbers.
\<close>

theorem addRootPool_grows_from_zero:
  assumes "addRootPool X nm cap rec m w = (Inr pool, m', w')"
  shows "\<exists>h1 q a ups.
           h1 pool = Some q \<and> (\<forall>p. p \<noteq> pool \<longrightarrow> h1 p = heap w p) \<and>
           p_capacity q = 0 \<and> p_maxCapacity q = cap \<and> p_reclaimer q = rec \<and>
           p_name q = fst (rootPoolName nm w) \<and>
           m_pools m' = m_pools m @ [(p_name q, pool)] \<and>
           growCapacity X (m_arbitrator m) h1 pool (min (m_poolInitCapacity m) cap) = (a, ups) \<and>
           m_arbitrator m' = a \<and> heap w' = applyCapacities ups h1 \<and>
           (0 \<le> sint cap \<longrightarrow>
              uint (min (m_poolInitCapacity m) cap) = min (uint (m_poolInitCapacity m)) (sint cap))"
proof -
  let ?name = "fst (rootPoolName nm w)"
  let ?q = "rootPoolInit X ?name cap rec m"
  let ?h1 = "(heap w)(pool \<mapsto> ?q)"
  let ?g = "growCapacity X (m_arbitrator m) ?h1 pool (min (m_poolInitCapacity m) cap)"
  note r = addRootPool_Inr [OF assms]
  have 1: "?h1 pool = Some ?q" by simp
  have 2: "\<forall>p. p \<noteq> pool \<longrightarrow> ?h1 p = heap w p" by simp
  from r have 3: "p_capacity ?q = 0" by (simp add: rootPoolInit_def)
  have 4: "p_maxCapacity ?q = cap" "p_reclaimer ?q = rec" "p_name ?q = ?name"
    by (simp_all add: rootPoolInit_def)
  from r have 5: "m_pools m' = m_pools m @ [(p_name ?q, pool)]"
    by (simp add: rootPoolInit_def)
  have 6: "?g = (fst ?g, snd ?g)" by simp
  from r have 7: "m_arbitrator m' = fst ?g" by (simp add: std_min_u64_min)
  from r have 8: "heap w' = applyCapacities (snd ?g) ?h1" by (simp add: std_min_u64_min)
  have 9: "0 \<le> sint cap \<longrightarrow>
      uint (min (m_poolInitCapacity m) cap) = min (uint (m_poolInitCapacity m)) (sint cap)"
    by (simp add: uint_min_word uint_of_nonneg_sint)
  from 1 2 3 4 5 6 7 8 9 show ?thesis by blast
qed

lemmas ctor_eval = MemoryManager_ctor_def newMemoryPoolImpl_def arbitratorConfig_def Let_def
  sampleExternal_def sampleOptions_def emptyWorld_def std_min_i64_def std_max_u16_def
  std_max_int_def grow_def addLeafPool_def leafPoolName_def addLeafChild_def kDefaultRootName_def
  decimal.simps digit_def upt_rec

lemma sample_ctor:
  "MemoryManager_ctor sampleExternal sampleOptions emptyWorld = (Inr sampleManager, sampleWorld)"
  by (simp add: ctor_eval sampleManager_def sampleWorld_def samplePool_def fun_eq_iff)

lemmas sample_defs = sampleExternal_def sampleManager_def sampleWorld_def samplePool_def

lemma sample_addRootPool:
  "addRootPool sampleExternal ''q1'' 64 None sampleManager sampleWorld = (Inr 3, q1Manager, q1World)"
proof -
  have "pools_find (m_pools sampleManager) (fst (rootPoolName ''q1'' sampleWorld)) = None"
    by (simp add: sample_defs pools_find_def rootPoolName_def)
  from addRootPool_fresh [OF this, of sampleExternal 64 None]
  show ?thesis
    by (simp add: Let_def sample_defs rootPoolName_def rootPoolInit_def std_min_u64_def
        q1Manager_def q1World_def fun_eq_iff)
qed

lemma pools_find_erase_same: "pools_find (pools_erase nm ps) nm = None"
  by (induction ps) (simp_all add: pools_find_def pools_erase_def)

lemma pools_find_erase_other: "k \<noteq> nm \<Longrightarrow> pools_find (pools_erase nm ps) k = pools_find ps k"
  by (induction ps) (simp_all add: pools_find_def pools_erase_def)

lemma getAlivePools_set:
  "set (getAlivePools m w) =
     {r. \<exists>nm q. (nm, r) \<in> set (m_pools m) \<and> heap w r = Some q \<and> \<not> p_expired q}"
proof -
  have "lock_ok w r \<longleftrightarrow> (\<exists>q. heap w r = Some q \<and> \<not> p_expired q)" for r
    by (cases "heap w r") (simp_all add: lock_ok_def)
  then show ?thesis
    by (force simp: getAlivePools_def)
qed

text \<open>
  Claim C5. For a pool \<open>p\<close> that exists, \<^verbatim>\<open>growPool\<close> fails when the capacity of the
  pool is \<^verbatim>\<open>kMaxMemory\<close> and leaves everything as it was. Otherwise it calls the
  arbitrator's \<^verbatim>\<open>growCapacity\<close> with the pool, the result of \<^verbatim>\<open>getAlivePools()\<close> and
  the increment, and returns the truth value the arbitrator returned. The pools of
  \<^verbatim>\<open>getAlivePools()\<close> are those of the registry whose object is still owned.
\<close>

theorem growPool_delegates:
  assumes "heap w p = Some q"
  shows "(p_capacity q = kMaxMemory X \<longrightarrow>
            growPool X (Some p) n m w = (Inl PoolAtMaxCapacity, m, w)) \<and>
         (p_capacity q \<noteq> kMaxMemory X \<longrightarrow>
            (\<exists>ok a ups.
               growCapacityFrom X (m_arbitrator m) (heap w) p (getAlivePools m w) n = (ok, a, ups) \<and>
               growPool X (Some p) n m w =
                 (Inr ok, m\<lparr>m_arbitrator := a\<rparr>, w\<lparr>heap := applyCapacities ups (heap w)\<rparr>))) \<and>
         set (getAlivePools m w) =
           {r. \<exists>nm q'. (nm, r) \<in> set (m_pools m) \<and> heap w r = Some q' \<and> \<not> p_expired q'}"
proof -
  from assms have 1: "p_capacity q = kMaxMemory X \<longrightarrow>
      growPool X (Some p) n m w = (Inl PoolAtMaxCapacity, m, w)"
    by (simp add: growPool_def)
  obtain ok a ups where g:
    "growCapacityFrom X (m_arbitrator m) (heap w) p (getAlivePools m w) n = (ok, a, ups)"
    by (cases "growCapacityFrom X (m_arbitrator m) (heap w) p (getAlivePools m w) n")
  with assms have "p_capacity q \<noteq> kMaxMemory X \<longrightarrow>
      growPool X (Some p) n m w =
        (Inr ok, m\<lparr>m_arbitrator := a\<rparr>, w\<lparr>heap := applyCapacities ups (heap w)\<rparr>)"
    by (simp add: growPool_def)
  with g have 2: "p_capacity q \<noteq> kMaxMemory X \<longrightarrow>
            (\<exists>ok a ups.
               growCapacityFrom X (m_arbitrator m) (heap w) p (getAlivePools m w) n = (ok, a, ups) \<and>
               growPool X (Some p) n m w =
                 (Inr ok, m\<lparr>m_arbitrator := a\<rparr>, w\<lparr>heap := applyCapacities ups (heap w)\<rparr>))"
    by blast
  from 1 2 getAlivePools_set [of m w] show ?thesis by blast
qed

text \<open>On the sample state with the root pool q1: the default root is at \<^verbatim>\<open>kMaxMemory\<close>,
  so growing it fails; growing q1 by 32 is passed to the arbitrator, which grants it; the
  only registered pool is q1.\<close>

theorem growPool_delegates_witness:
  "growPool sampleExternal (Some 0) 32 q1Manager q1World = (Inl PoolAtMaxCapacity, q1Manager, q1World) \<and>
   (\<exists>a ups. growCapacityFrom sampleExternal (m_arbitrator q1Manager) (heap q1World) 3
               (getAlivePools q1Manager q1World) 32 = (True, a, ups) \<and>
            growPool sampleExternal (Some 3) 32 q1Manager q1World =
              (Inr True, q1Manager\<lparr>m_arbitrator := a\<rparr>,
               q1World\<lparr>heap := applyCapacities ups (heap q1World)\<rparr>)) \<and>
   set (getAlivePools q1Manager q1World) = {3}"
proof -
  let ?root = "samplePool ''__default_root__'' kAggregate None 0x7FFFFFFFFFFFFFFF [1, 2]"
  let ?q1 = "(samplePool ''q1'' kAggregate None 64 [])\<lparr>p_maxCapacity := 64\<rparr>"
  have h0: "heap q1World 0 = Some ?root" and h3: "heap q1World 3 = Some ?q1"
    by (simp_all add: q1World_def sampleWorld_def)
  have c0: "p_capacity ?root = kMaxMemory sampleExternal"
    and c3: "p_capacity ?q1 \<noteq> kMaxMemory sampleExternal"
    by (simp_all add: samplePool_def sampleExternal_def)
  from growPool_delegates [OF h0, of sampleExternal 32 q1Manager] c0
  have 1: "growPool sampleExternal (Some 0) 32 q1Manager q1World =
             (Inl PoolAtMaxCapacity, q1Manager, q1World)" by blast
  from growPool_delegates [OF h3, of sampleExternal 32 q1Manager] c3
  obtain ok a ups where g:
    "growCapacityFrom sampleExternal (m_arbitrator q1Manager) (heap q1World) 3
       (getAlivePools q1Manager q1World) 32 = (ok, a, ups)"
    "growPool sampleExternal (Some 3) 32 q1Manager q1World =
       (Inr ok, q1Manager\<lparr>m_arbitrator := a\<rparr>, q1World\<lparr>heap := applyCapacities ups (heap q1World)\<rparr>)"
    by blast
  have "fst (growCapacityFrom sampleExternal (m_arbitrator q1Manager) (heap q1World) 3
       (getAlivePools q1Manager q1World) 32) = True"
    by (simp add: sampleExternal_def h3 q1Manager_def sampleManager_def)
  with g have ok: "ok = True" by simp
  have s: "set (getAlivePools q1Manager q1World) = {3}"
    by (simp add: getAlivePools_def lock_ok_def h3 q1Manager_def samplePool_def)
  from 1 g ok s show ?thesis by blast
qed

text \<open>On the sample manager, \<^verbatim>\<open>addRootPool("q1", 64, nullptr)\<close> creates the pool at address
  3 with capacity 0 and asks the arbitrator for \<open>min 128 64 = 64\<close> bytes.\<close>

theorem addRootPool_grows_from_zero_witness:
  "addRootPool sampleExternal ''q1'' 64 None sampleManager sampleWorld = (Inr 3, q1Manager, q1World) \<and>
   (\<exists>h1 q. h1 3 = Some q \<and> p_capacity q = 0 \<and> p_name q = ''q1'' \<and>
      m_pools q1Manager = [(''q1'', 3)] \<and>
      growCapacity sampleExternal 512 h1 3 64 = (m_arbitrator q1Manager, [(3, 64)]) \<and>
      heap q1World = applyCapacities [(3, 64)] h1)"
proof -
  note e = sample_addRootPool
  from addRootPool_grows_from_zero [OF e] obtain h1 q a ups where
    1: "h1 3 = Some q" "p_capacity q = 0" "p_name q = fst (rootPoolName ''q1'' sampleWorld)"
    and 2: "m_pools q1Manager = m_pools sampleManager @ [(p_name q, 3)]"
    and 3: "growCapacity sampleExternal (m_arbitrator sampleManager) h1 3
              (min (m_poolInitCapacity sampleManager) 64) = (a, ups)"
    and 4: "m_arbitrator q1Manager = a" "heap q1World = applyCapacities ups h1"
    by blast
  from 1 have n: "p_name q = ''q1''" by (simp add: rootPoolName_def)
  from 2 n have p: "m_pools q1Manager = [(''q1'', 3)]" by (simp add: sampleManager_def)
  from 3 have "growCapacity sampleExternal 512 h1 3 64 = (a, ups)"
    by (simp add: sampleManager_def)
  moreover from this 1 have "ups = [(3, 64)]" by (simp add: sampleExternal_def)
  ultimately have g: "growCapacity sampleExternal 512 h1 3 64 = (m_arbitrator q1Manager, [(3, 64)])"
    and h: "heap q1World = applyCapacities [(3, 64)] h1"
    using 4 by simp_all
  from e 1 n p g h show ?thesis by blast
qed

text \<open>
  Claim C6 says that \<^verbatim>\<open>dropPool\<close> surfaces a failure when the usage of the pool is not
  zero. The check is a \<^verbatim>\<open>VELOX_DCHECK_EQ\<close>: in a build without debug checks, dropping
  the registered pool q1 with 8 bytes in use succeeds.
\<close>

theorem dropPool_nonzero_usage_counterexample:
  "(\<exists>q. heap busyWorld 3 = Some q \<and> p_currentBytes q = 8) \<and>
   pools_find (m_pools q1Manager) ''q1'' = Some 3 \<and>
   fst (dropPool releaseExternal (Some 3) q1Manager busyWorld) = Inr ()"
  by (simp add: busyWorld_def q1Manager_def pools_find_def dropPool_def releaseExternal_def
      sampleExternal_def samplePool_def Let_def)

text \<open>
  Claim C6, amended. For a pool \<open>p\<close> that exists, \<^verbatim>\<open>dropPool\<close> fails and changes
  nothing when no registry entry has the name of the pool. Otherwise it removes the
  entry; then, in a build with debug checks, it fails when the usage of the pool is not
  zero (the entry stays removed); in every other case it calls the arbitrator's
  \<^verbatim>\<open>shrinkCapacity\<close> with the pool and target 0 and succeeds.
\<close>

theorem dropPool_outcomes:
  assumes "heap w p = Some q"
  shows "(pools_find (m_pools m) (p_name q) = None \<longrightarrow>
            dropPool X (Some p) m w = (Inl (PoolNotFound (p_name q)), m, w)) \<and>
         (pools_find (m_pools m) (p_name q) \<noteq> None \<longrightarrow>
            pools_find (m_pools (fst (snd (dropPool X (Some p) m w)))) (p_name q) = None \<and>
            (dchecksEnabled X \<and> p_currentBytes q \<noteq> 0 \<longrightarrow>
               dropPool X (Some p) m w =
                 (Inl CurrentBytesNotZero,
                  m\<lparr>m_pools := pools_erase (p_name q) (m_pools m)\<rparr>, w)) \<and>
            (\<not> (dchecksEnabled X \<and> p_currentBytes q \<noteq> 0) \<longrightarrow>
               (\<exists>a ups.
                  shrinkCapacity X (m_arbitrator m) (heap w) p 0 = (a, ups) \<and>
                  dropPool X (Some p) m w =
                    (Inr (),
                     m\<lparr>m_pools := pools_erase (p_name q) (m_pools m), m_arbitrator := a\<rparr>,
                     w\<lparr>heap := applyCapacities ups (heap w)\<rparr>))))"
proof -
  let ?m1 = "m\<lparr>m_pools := pools_erase (p_name q) (m_pools m)\<rparr>"
  from assms have 1: "pools_find (m_pools m) (p_name q) = None \<longrightarrow>
      dropPool X (Some p) m w = (Inl (PoolNotFound (p_name q)), m, w)"
    by (simp add: dropPool_def)
  from assms have 2: "dropPool X (Some p) m w = (Inl CurrentBytesNotZero, ?m1, w)"
    if "pools_find (m_pools m) (p_name q) \<noteq> None" "dchecksEnabled X \<and> p_currentBytes q \<noteq> 0"
    using that by (simp add: dropPool_def Let_def)
  obtain a ups where s: "shrinkCapacity X (m_arbitrator m) (heap w) p 0 = (a, ups)"
    by (cases "shrinkCapacity X (m_arbitrator m) (heap w) p 0")
  from assms s have 3: "dropPool X (Some p) m w =
      (Inr (), ?m1\<lparr>m_arbitrator := a\<rparr>, w\<lparr>heap := applyCapacities ups (heap w)\<rparr>)"
    if "pools_find (m_pools m) (p_name q) \<noteq> None" "\<not> (dchecksEnabled X \<and> p_currentBytes q \<noteq> 0)"
    using that by (simp add: dropPool_def Let_def)
  have 4: "pools_find (m_pools (fst (snd (dropPool X (Some p) m w)))) (p_name q) = None"
    if f: "pools_find (m_pools m) (p_name q) \<noteq> None"
  proof (cases "dchecksEnabled X \<and> p_currentBytes q \<noteq> 0")
    case True
    from 2 [OF f True] show ?thesis by (simp add: pools_find_erase_same)
  next
    case False
    from 3 [OF f False] show ?thesis by (simp add: pools_find_erase_same)
  qed
  from 3 s have 5: "\<exists>a ups.
                  shrinkCapacity X (m_arbitrator m) (heap w) p 0 = (a, ups) \<and>
                  dropPool X (Some p) m w =
                    (Inr (),
                     m\<lparr>m_pools := pools_erase (p_name q) (m_pools m), m_arbitrator := a\<rparr>,
                     w\<lparr>heap := applyCapacities ups (heap w)\<rparr>)"
    if "pools_find (m_pools m) (p_name q) \<noteq> None" "\<not> (dchecksEnabled X \<and> p_currentBytes q \<noteq> 0)"
    using that by simp
  from 1 2 4 5 show ?thesis by blast
qed

text \<open>On the sample states: q1 is not registered in the manager as constructed; with q1
  registered and 8 bytes in use the debug check fails after the entry is gone; with no
  bytes in use the pool is dropped and its 64 bytes return to the sample arbitrator.\<close>

theorem dropPool_outcomes_witness:
  "dropPool sampleExternal (Some 3) sampleManager q1World =
     (Inl (PoolNotFound ''q1''), sampleManager, q1World) \<and>
   dropPool sampleExternal (Some 3) q1Manager busyWorld =
     (Inl CurrentBytesNotZero, q1Manager\<lparr>m_pools := []\<rparr>, busyWorld) \<and>
   (\<exists>ups. shrinkCapacity sampleExternal 448 (heap q1World) 3 0 = (512, ups) \<and>
      dropPool sampleExternal (Some 3) q1Manager q1World =
        (Inr (), q1Manager\<lparr>m_pools := [], m_arbitrator := 512\<rparr>,
         q1World\<lparr>heap := applyCapacities ups (heap q1World)\<rparr>))"
proof -
  let ?q1 = "(samplePool ''q1'' kAggregate None 64 [])\<lparr>p_maxCapacity := 64\<rparr>"
  let ?busy = "(samplePool ''q1'' kAggregate None 64 [])\<lparr>p_maxCapacity := 64, p_currentBytes := 8\<rparr>"
  have h3: "heap q1World 3 = Some ?q1" by (simp add: q1World_def)
  have hb: "heap busyWorld 3 = Some ?busy" by (simp add: busyWorld_def)
  have nm: "p_name ?q1 = ''q1''" "p_name ?busy = ''q1''" by (simp_all add: samplePool_def)
  have nf: "pools_find (m_pools sampleManager) (p_name ?q1) = None"
    by (simp add: pools_find_def sampleManager_def)
  have f: "pools_find (m_pools q1Manager) (p_name ?q1) \<noteq> None"
    "pools_find (m_pools q1Manager) (p_name ?busy) \<noteq> None"
    by (simp_all add: pools_find_def q1Manager_def samplePool_def)
  have er: "pools_erase ''q1'' (m_pools q1Manager) = []"
    by (simp add: pools_erase_def q1Manager_def)
  have d: "dchecksEnabled sampleExternal \<and> p_currentBytes ?busy \<noteq> 0"
    "\<not> (dchecksEnabled sampleExternal \<and> p_currentBytes ?q1 \<noteq> 0)"
    by (simp_all add: sampleExternal_def samplePool_def)
  from dropPool_outcomes [OF h3, of sampleManager sampleExternal] nf nm
  have 1: "dropPool sampleExternal (Some 3) sampleManager q1World =
     (Inl (PoolNotFound ''q1''), sampleManager, q1World)" by simp
  from dropPool_outcomes [OF hb, of q1Manager sampleExternal] f d
  have "dropPool sampleExternal (Some 3) q1Manager busyWorld =
     (Inl CurrentBytesNotZero, q1Manager\<lparr>m_pools := pools_erase (p_name ?busy) (m_pools q1Manager)\<rparr>, busyWorld)"
    by blast
  with nm er have 2: "dropPool sampleExternal (Some 3) q1Manager busyWorld =
     (Inl CurrentBytesNotZero, q1Manager\<lparr>m_pools := []\<rparr>, busyWorld)" by simp
  from dropPool_outcomes [OF h3, of q1Manager sampleExternal] f d
  obtain a ups where s: "shrinkCapacity sampleExternal (m_arbitrator q1Manager) (heap q1World) 3 0 = (a, ups)"
    and dr: "dropPool sampleExternal (Some 3) q1Manager q1World =
        (Inr (), q1Manager\<lparr>m_pools := pools_erase (p_name ?q1) (m_pools q1Manager), m_arbitrator := a\<rparr>,
         q1World\<lparr>heap := applyCapacities ups (heap q1World)\<rparr>)"
    by blast
  from s have a: "a = 512"
    by (simp add: sampleExternal_def h3 q1Manager_def samplePool_def)
  from s a have s': "shrinkCapacity sampleExternal 448 (heap q1World) 3 0 = (512, ups)"
    by (simp add: q1Manager_def)
  from dr a nm er have 3: "dropPool sampleExternal (Some 3) q1Manager q1World =
        (Inr (), q1Manager\<lparr>m_pools := [], m_arbitrator := 512\<rparr>,
         q1World\<lparr>heap := applyCapacities ups (heap q1World)\<rparr>)" by simp
  from 1 2 3 s' show ?thesis by blast
qed

subsection \<open>The leak check of the destructor: claim C7\<close>

lemma addRootPool_alive:
  assumes "addRootPool X nm cap rec m w = (Inr pool, m', w')"
  shows "\<exists>q. heap w' pool = Some q \<and> p_name q = fst (rootPoolName nm w) \<and> \<not> p_expired q \<and>
             p_currentBytes q = 0"
proof -
  let ?q = "rootPoolInit X (fst (rootPoolName nm w)) cap rec m"
  let ?h1 = "(heap w)(pool \<mapsto> ?q)"
  note r = addRootPool_Inr [OF assms]
  have "?h1 pool = Some ?q" by simp
  from applyCapacities_Some [where h = "?h1" and p = pool and q = "?q", OF this] obtain c where
    "applyCapacities (snd (growCapacity X (m_arbitrator m) ?h1 pool
        (std_min_u64 (m_poolInitCapacity m) cap))) ?h1 pool = Some (?q\<lparr>p_capacity := c\<rparr>)"
    by blast
  with r have "heap w' pool = Some (?q\<lparr>p_capacity := c\<rparr>)" by simp
  then show ?thesis by (simp add: rootPoolInit_def)
qed

lemma addRootPool_succeeds:
  assumes "pools_find (m_pools m) (fst (rootPoolName nm w)) = None" "freshPoolCapacity X = 0"
  shows "\<exists>pool m' w'. addRootPool X nm cap rec m w = (Inr pool, m', w')"
  using addRootPool_fresh [OF assms(1), of X cap rec] assms(2) by (simp add: Let_def)

lemma pools_find_append:
  "pools_find ps k = None \<Longrightarrow> pools_find (ps @ [(k, v)]) k = Some v"
  by (simp add: pools_find_def map_add_def)

lemma expire_heap:
  "heap w p = Some q \<Longrightarrow> heap (expire p w) p = Some (q\<lparr>p_expired := True\<rparr>)"
  by (simp add: expire_def)

text \<open>
  Claim C7. With leak checking enabled, the destructor fails exactly when the registry of
  root pools is not empty, and completes exactly when it is empty; without leak checking
  it always completes. In particular, for a
  manager constructed with leak checking enabled: destroying it at once is clean; after
  a root pool was created, destroying it fails; and once the pool's entry has been
  dropped, destroying it is clean again.
\<close>

theorem dtor_leak_check:
  "(m_checkUsageLeak m \<longrightarrow> (MemoryManager_dtor m = Inl LeakedPools) = (m_pools m \<noteq> [])) \<and>
   (m_checkUsageLeak m \<longrightarrow> (MemoryManager_dtor m = Inr ()) = (m_pools m = [])) \<and>
   (\<not> m_checkUsageLeak m \<longrightarrow> MemoryManager_dtor m = Inr ()) \<and>
   (MemoryManager_ctor X options w0 = (Inr m0, w) \<and> checkUsageLeak options \<and>
    addRootPool X nm cap rec m0 w = (Inr p, m1, w1) \<longrightarrow>
      MemoryManager_dtor m0 = Inr () \<and>
      MemoryManager_dtor m1 = Inl LeakedPools \<and>
      (\<forall>r m2 w2. dropPool X (Some p) m1 w1 = (r, m2, w2) \<longrightarrow> MemoryManager_dtor m2 = Inr ()))"
proof -
  have 1: "m_checkUsageLeak m \<longrightarrow> (MemoryManager_dtor m = Inl LeakedPools) = (m_pools m \<noteq> [])"
    by (simp add: MemoryManager_dtor_def)
  have 2: "m_checkUsageLeak m \<longrightarrow> (MemoryManager_dtor m = Inr ()) = (m_pools m = [])"
    by (simp add: MemoryManager_dtor_def)
  have n: "\<not> m_checkUsageLeak m \<longrightarrow> MemoryManager_dtor m = Inr ()"
    by (simp add: MemoryManager_dtor_def)
  have 3: "MemoryManager_dtor m0 = Inr () \<and> MemoryManager_dtor m1 = Inl LeakedPools \<and>
      (\<forall>r m2 w2. dropPool X (Some p) m1 w1 = (r, m2, w2) \<longrightarrow> MemoryManager_dtor m2 = Inr ())"
    if c: "MemoryManager_ctor X options w0 = (Inr m0, w)" and l: "checkUsageLeak options"
      and a: "addRootPool X nm cap rec m0 w = (Inr p, m1, w1)"
  proof -
    from ctor_Inr [OF c] l have m0: "m_pools m0 = []" "m_checkUsageLeak m0" by auto
    then have d0: "MemoryManager_dtor m0 = Inr ()" by (simp add: MemoryManager_dtor_def)
    let ?name = "fst (rootPoolName nm w)"
    from addRootPool_Inr [OF a] m0 have m1: "m_pools m1 = [(?name, p)]" "m_checkUsageLeak m1"
      by simp_all
    then have d1: "MemoryManager_dtor m1 = Inl LeakedPools" by (simp add: MemoryManager_dtor_def)
    from addRootPool_alive [OF a] obtain q where q: "heap w1 p = Some q" "p_name q = ?name"
      by blast
    from m1 q have f: "pools_find (m_pools m1) (p_name q) \<noteq> None"
      by (simp add: pools_find_def)
    have e: "pools_erase (p_name q) (m_pools m1) = []"
      using m1 q by (simp add: pools_erase_def)
    have "MemoryManager_dtor m2 = Inr ()" if d: "dropPool X (Some p) m1 w1 = (r, m2, w2)" for r m2 w2
    proof -
      from d q f e have "m_pools m2 = []"
        by (auto simp: dropPool_def Let_def split_beta split: if_splits)
      then show ?thesis by (simp add: MemoryManager_dtor_def)
    qed
    with d0 d1 show ?thesis by blast
  qed
  from 1 2 n 3 show ?thesis by blast
qed

text \<open>The sample manager is constructed with leak checking enabled: its destructor fails
  while q1 is registered, and is clean before q1 was added and after q1 was dropped; with
  leak checking switched off it is clean also while q1 is registered.\<close>

theorem dtor_leak_check_witness:
  "m_checkUsageLeak q1Manager \<and> m_pools q1Manager \<noteq> [] \<and>
   MemoryManager_dtor q1Manager = Inl LeakedPools \<and>
   MemoryManager_dtor (q1Manager\<lparr>m_checkUsageLeak := False\<rparr>) = Inr () \<and>
   MemoryManager_ctor sampleExternal sampleOptions emptyWorld = (Inr sampleManager, sampleWorld) \<and>
   checkUsageLeak sampleOptions \<and>
   addRootPool sampleExternal ''q1'' 64 None sampleManager sampleWorld = (Inr 3, q1Manager, q1World) \<and>
   m_pools sampleManager = [] \<and>
   MemoryManager_dtor sampleManager = Inr () \<and>
   MemoryManager_dtor (fst (snd (dropPool sampleExternal (Some 3) q1Manager q1World))) = Inr ()"
proof -
  have l: "m_checkUsageLeak q1Manager" and n: "m_pools q1Manager \<noteq> []"
    by (simp_all add: q1Manager_def sampleManager_def)
  from dtor_leak_check [of q1Manager] l n
  have 1: "MemoryManager_dtor q1Manager = Inl LeakedPools" by blast
  have "\<not> m_checkUsageLeak (q1Manager\<lparr>m_checkUsageLeak := False\<rparr>)" by simp
  with dtor_leak_check [of "q1Manager\<lparr>m_checkUsageLeak := False\<rparr>"]
  have u: "MemoryManager_dtor (q1Manager\<lparr>m_checkUsageLeak := False\<rparr>) = Inr ()" by blast
  have e: "m_checkUsageLeak sampleManager" "m_pools sampleManager = []"
    by (simp_all add: sampleManager_def)
  with dtor_leak_check [of sampleManager]
  have 2: "MemoryManager_dtor sampleManager = Inr ()" by blast
  have o: "checkUsageLeak sampleOptions" by (simp add: sampleOptions_def)
  obtain r m2 w2 where d: "dropPool sampleExternal (Some 3) q1Manager q1World = (r, m2, w2)"
    by (cases "dropPool sampleExternal (Some 3) q1Manager q1World")
  from dtor_leak_check [of _ sampleExternal sampleOptions emptyWorld sampleManager sampleWorld
      "''q1''" 64 None 3 q1Manager q1World] sample_ctor o sample_addRootPool d
  have 3: "MemoryManager_dtor m2 = Inr ()"
    by blast
  from d 3 have "MemoryManager_dtor (fst (snd (dropPool sampleExternal (Some 3) q1Manager q1World))) = Inr ()"
    by simp
  with l n 1 u sample_ctor o sample_addRootPool e 2 show ?thesis by blast
qed

subsection \<open>The registry: claim C2\<close>

lemma dropPool_Inr:
  assumes "dropPool X (Some p) m w = (Inr (), m2, w2)"
  shows "\<exists>q. heap w p = Some q \<and>
           m2 = m\<lparr>m_pools := pools_erase (p_name q) (m_pools m),
                   m_arbitrator := fst (shrinkCapacity X (m_arbitrator m) (heap w) p 0)\<rparr> \<and>
           w2 = w\<lparr>heap := applyCapacities (snd (shrinkCapacity X (m_arbitrator m) (heap w) p 0)) (heap w)\<rparr>"
proof (cases "heap w p")
  case None
  with assms show ?thesis by (simp add: dropPool_def)
next
  case (Some q)
  with assms show ?thesis
    by (simp add: dropPool_def Let_def split_beta split: if_splits)
qed

lemma destroyed_not_alive:
  assumes "heap w p = Some q" "dropPool X (Some p) m (expire p w) = (Inr (), m2, w2)"
  shows "p \<notin> set (getAlivePools m2 w2) \<and> pools_find (m_pools m2) (p_name q) = None"
proof -
  let ?w = "expire p w"
  from assms(1) have e: "heap ?w p = Some (q\<lparr>p_expired := True\<rparr>)" by (rule expire_heap)
  from dropPool_Inr [OF assms(2)] e
  have m2: "m_pools m2 = pools_erase (p_name q) (m_pools m)"
    and w2: "heap w2 = applyCapacities (snd (shrinkCapacity X (m_arbitrator m) (heap ?w) p 0)) (heap ?w)"
    by auto
  from applyCapacities_Some [where h = "heap ?w" and p = p and q = "q\<lparr>p_expired := True\<rparr>", OF e]
  obtain c where "applyCapacities (snd (shrinkCapacity X (m_arbitrator m) (heap ?w) p 0)) (heap ?w) p
      = Some (q\<lparr>p_expired := True, p_capacity := c\<rparr>)" by blast
  with w2 have "heap w2 p = Some (q\<lparr>p_expired := True, p_capacity := c\<rparr>)" by simp
  then have "p \<notin> set (getAlivePools m2 w2)" by (simp add: getAlivePools_set)
  with m2 show ?thesis by (simp add: pools_find_erase_same)
qed

lemmas format_eval = formatInt_def decimal.simps digit_def

text \<open>
  Claim C2 says that \<^verbatim>\<open>addRootPool\<close> fails with a duplicate-name error exactly when the
  name it is given collides with a registry entry. After a root pool was created under
  the name \<^verbatim>\<open>default_root_0\<close>, a call with the empty name, which no entry has, makes
  that same name from the counter (still 0) and fails with the duplicate-name error.
\<close>

theorem addRootPool_empty_name_counterexample:
  "addRootPool sampleExternal ''default_root_0'' 64 None sampleManager sampleWorld =
     (Inr 3, namedManager, namedWorld) \<and>
   pools_find (m_pools namedManager) '''' = None \<and>
   fst (addRootPool sampleExternal '''' 64 None namedManager namedWorld) =
     Inl (DuplicateRootPoolName ''default_root_0'')"
proof -
  have "pools_find (m_pools sampleManager) (fst (rootPoolName ''default_root_0'' sampleWorld)) = None"
    by (simp add: sample_defs pools_find_def rootPoolName_def)
  from addRootPool_fresh [OF this, of sampleExternal 64 None]
  have 1: "addRootPool sampleExternal ''default_root_0'' 64 None sampleManager sampleWorld =
     (Inr 3, namedManager, namedWorld)"
    by (simp add: Let_def sample_defs rootPoolName_def rootPoolInit_def std_min_u64_def
        namedManager_def namedWorld_def fun_eq_iff)
  have 2: "pools_find (m_pools namedManager) '''' = None"
    by (simp add: namedManager_def pools_find_def)
  have n: "fst (rootPoolName '''' namedWorld) = ''default_root_0''"
    by (simp add: rootPoolName_def namedWorld_def sampleWorld_def format_eval)
  then have "pools_find (m_pools namedManager) (fst (rootPoolName '''' namedWorld)) \<noteq> None"
    by (simp add: namedManager_def pools_find_def)
  from addRootPool_duplicate [OF this, of sampleExternal 64 None] n
  have 3: "fst (addRootPool sampleExternal '''' 64 None namedManager namedWorld) =
     Inl (DuplicateRootPoolName ''default_root_0'')" by simp
  from 1 2 3 show ?thesis by blast
qed

text \<open>
  Claim C2, amended. \<^verbatim>\<open>addRootPool\<close> fails with a duplicate-name error exactly when the
  name it registers is the name of a registry entry, whether or not the pool of that
  entry is still owned; the name it registers is the name given or, when that is empty,
  \<^verbatim>\<open>default_root_\<close> followed by the counter. After a successful call with a name
  that is not empty, \<^verbatim>\<open>getAlivePools()\<close> contains the new pool, which has that name;
  the pool can be destroyed (its last owner lets go, and the pool's destruction callback,
  \<^verbatim>\<open>dropPool\<close>, runs), after which \<^verbatim>\<open>getAlivePools()\<close> does not contain it, no entry has
  its name, and a second \<^verbatim>\<open>addRootPool\<close> with the name succeeds. The last part holds for
  the destruction of any pool in any state, where \<^verbatim>\<open>capacity()\<close> of a new pool is 0.
\<close>

theorem addRootPool_registry:
  "((\<exists>k. fst (addRootPool X nm cap rec m w) = Inl (DuplicateRootPoolName k)) \<longleftrightarrow>
      pools_find (m_pools m) (fst (rootPoolName nm w)) \<noteq> None) \<and>
   fst (rootPoolName nm w) =
     (if nm = [] then ''default_root_'' @ formatInt (sint (rootPoolId w)) else nm) \<and>
   (nm \<noteq> [] \<and> addRootPool X nm cap rec m w = (Inr p, m1, w1) \<longrightarrow>
      p \<in> set (getAlivePools m1 w1) \<and>
      (\<exists>q. heap w1 p = Some q \<and> p_name q = nm) \<and>
      (\<exists>m2 w2. dropPool X (Some p) m1 (expire p w1) = (Inr (), m2, w2) \<and>
         p \<notin> set (getAlivePools m2 w2) \<and>
         pools_find (m_pools m2) nm = None \<and>
         (\<exists>p' m3 w3. addRootPool X nm cap' rec' m2 w2 = (Inr p', m3, w3)))) \<and>
   (heap w p = Some q \<and> dropPool X (Some p) m (expire p w) = (Inr (), m2, w2) \<longrightarrow>
      p \<notin> set (getAlivePools m2 w2) \<and>
      pools_find (m_pools m2) (p_name q) = None \<and>
      (p_name q \<noteq> [] \<and> freshPoolCapacity X = 0 \<longrightarrow>
         (\<exists>p' m3 w3. addRootPool X (p_name q) cap' rec' m2 w2 = (Inr p', m3, w3))))"
proof -
  let ?name = "fst (rootPoolName nm w)"
  have 1: "(\<exists>k. fst (addRootPool X nm cap rec m w) = Inl (DuplicateRootPoolName k)) \<longleftrightarrow>
      pools_find (m_pools m) ?name \<noteq> None"
  proof (cases "pools_find (m_pools m) ?name = None")
    case True
    from addRootPool_fresh [OF True, of X cap rec]
    have "\<not> (\<exists>k. fst (addRootPool X nm cap rec m w) = Inl (DuplicateRootPoolName k))"
      by (simp add: Let_def)
    with True show ?thesis by simp
  next
    case False
    from addRootPool_duplicate [OF False, of X cap rec] False show ?thesis by simp
  qed
  have 2: "?name = (if nm = [] then ''default_root_'' @ formatInt (sint (rootPoolId w)) else nm)"
    by (simp add: rootPoolName_def)
  have 4: "p \<notin> set (getAlivePools m2 w2) \<and> pools_find (m_pools m2) (p_name q) = None \<and>
      (p_name q \<noteq> [] \<and> freshPoolCapacity X = 0 \<longrightarrow>
         (\<exists>p' m3 w3. addRootPool X (p_name q) cap' rec' m2 w2 = (Inr p', m3, w3)))"
    if h: "heap w p = Some q" and d: "dropPool X (Some p) m (expire p w) = (Inr (), m2, w2)"
    for m w p q m2 w2
  proof -
    note g = destroyed_not_alive [OF h d]
    have "\<exists>p' m3 w3. addRootPool X (p_name q) cap' rec' m2 w2 = (Inr p', m3, w3)"
      if n: "p_name q \<noteq> []" and z: "freshPoolCapacity X = 0"
    proof -
      from n have "fst (rootPoolName (p_name q) w2) = p_name q" by (simp add: rootPoolName_def)
      with g have "pools_find (m_pools m2) (fst (rootPoolName (p_name q) w2)) = None" by simp
      from addRootPool_succeeds [OF this z] show ?thesis .
    qed
    with g show ?thesis by blast
  qed
  have 3: "p \<in> set (getAlivePools m1 w1) \<and> (\<exists>q. heap w1 p = Some q \<and> p_name q = nm) \<and>
      (\<exists>m2 w2. dropPool X (Some p) m1 (expire p w1) = (Inr (), m2, w2) \<and>
         p \<notin> set (getAlivePools m2 w2) \<and>
         pools_find (m_pools m2) nm = None \<and>
         (\<exists>p' m3 w3. addRootPool X nm cap' rec' m2 w2 = (Inr p', m3, w3)))"
    if n: "nm \<noteq> []" and a: "addRootPool X nm cap rec m w = (Inr p, m1, w1)"
  proof -
    from n have nm: "?name = nm" by (simp add: rootPoolName_def)
    from addRootPool_alive [OF a] nm obtain q' where
      q: "heap w1 p = Some q'" "p_name q' = nm" "\<not> p_expired q'" "p_currentBytes q' = 0"
      by auto
    from addRootPool_Inr [OF a] nm have r: "(nm, p) \<in> set (m_pools m1)" by simp
    with q have al: "p \<in> set (getAlivePools m1 w1)" by (auto simp: getAlivePools_set)
    from r have "map_of (m_pools m1) nm \<noteq> None"
      by (simp add: weak_map_of_SomeI)
    then have f: "pools_find (m_pools m1) nm \<noteq> None" by (simp add: pools_find_def)
    let ?w = "expire p w1"
    from q have e: "heap ?w p = Some (q'\<lparr>p_expired := True\<rparr>)" by (simp add: expire_heap)
    obtain a' ups where "shrinkCapacity X (m_arbitrator m1) (heap ?w) p 0 = (a', ups)"
      by (cases "shrinkCapacity X (m_arbitrator m1) (heap ?w) p 0")
    with e f q obtain m2 w2 where d: "dropPool X (Some p) m1 ?w = (Inr (), m2, w2)"
      by (simp add: dropPool_def Let_def)
    from addRootPool_Inr [OF a] have z: "freshPoolCapacity X = 0" by simp
    from 4 [OF q(1) d] q(2) n z
    have "p \<notin> set (getAlivePools m2 w2) \<and> pools_find (m_pools m2) nm = None \<and>
         (\<exists>p' m3 w3. addRootPool X nm cap' rec' m2 w2 = (Inr p', m3, w3))"
      by simp
    with d al q show ?thesis by blast
  qed
  from 1 2 3 4 show ?thesis by blast
qed

text \<open>On the sample states: the empty name collides through the counter; q1 is added,
  is alive, is destroyed, is gone, and is added again.\<close>

theorem addRootPool_registry_witness:
  "fst (addRootPool sampleExternal '''' 64 None namedManager namedWorld) =
     Inl (DuplicateRootPoolName ''default_root_0'') \<and>
   pools_find (m_pools namedManager) ''default_root_0'' = Some 3 \<and>
   addRootPool sampleExternal ''q1'' 64 None sampleManager sampleWorld = (Inr 3, q1Manager, q1World) \<and>
   3 \<in> set (getAlivePools q1Manager q1World) \<and>
   (\<exists>q. heap q1World 3 = Some q \<and> p_name q = ''q1'') \<and>
   freshPoolCapacity sampleExternal = 0 \<and>
   (\<exists>m2 w2. dropPool sampleExternal (Some 3) q1Manager (expire 3 q1World) = (Inr (), m2, w2) \<and>
      3 \<notin> set (getAlivePools m2 w2) \<and>
      pools_find (m_pools m2) ''q1'' = None \<and>
      (\<exists>p' m3 w3. addRootPool sampleExternal ''q1'' 32 None m2 w2 = (Inr p', m3, w3)))"
proof -
  let ?q1 = "(samplePool ''q1'' kAggregate None 64 [])\<lparr>p_maxCapacity := 64\<rparr>"
  have n: "fst (rootPoolName '''' namedWorld) = ''default_root_0''"
    by (simp add: rootPoolName_def namedWorld_def sampleWorld_def format_eval)
  have f: "pools_find (m_pools namedManager) ''default_root_0'' = Some 3"
    by (simp add: namedManager_def pools_find_def)
  from n f have ff: "pools_find (m_pools namedManager) (fst (rootPoolName '''' namedWorld)) \<noteq> None"
    by simp
  from addRootPool_registry [of sampleExternal "''''" 64 None namedManager namedWorld] ff
  obtain k where "fst (addRootPool sampleExternal '''' 64 None namedManager namedWorld) =
     Inl (DuplicateRootPoolName k)" by blast
  moreover from this have "k = ''default_root_0''"
    using addRootPool_duplicate [of namedManager "''''" namedWorld sampleExternal 64 None] n f
    by simp
  ultimately have 1: "fst (addRootPool sampleExternal '''' 64 None namedManager namedWorld) =
     Inl (DuplicateRootPoolName ''default_root_0'')" by simp
  have ne: "''q1'' \<noteq> []" by simp
  from addRootPool_registry [of sampleExternal "''q1''" 64 None sampleManager sampleWorld
      3 q1Manager q1World 32 None] ne sample_addRootPool
  have 2: "3 \<in> set (getAlivePools q1Manager q1World)"
    and "\<exists>m2 w2. dropPool sampleExternal (Some 3) q1Manager (expire 3 q1World) = (Inr (), m2, w2)"
    by blast+
  then obtain m2 w2 where
    d: "dropPool sampleExternal (Some 3) q1Manager (expire 3 q1World) = (Inr (), m2, w2)"
    by blast
  have h: "heap q1World 3 = Some ?q1" by (simp add: q1World_def)
  have nm: "p_name ?q1 = ''q1''" by (simp add: samplePool_def)
  have z: "freshPoolCapacity sampleExternal = 0" by (simp add: sampleExternal_def)
  from addRootPool_registry [where X = sampleExternal and m = q1Manager and w = q1World
      and p = 3 and q = ?q1 and ?m2.0 = m2 and ?w2.0 = w2 and cap' = 32 and rec' = None]
    h d nm ne z
  have 3: "3 \<notin> set (getAlivePools m2 w2)" "pools_find (m_pools m2) ''q1'' = None"
    "\<exists>p' m3 w3. addRootPool sampleExternal ''q1'' 32 None m2 w2 = (Inr p', m3, w3)"
    by simp_all
  from h nm have 4: "\<exists>q. heap q1World 3 = Some q \<and> p_name q = ''q1''" by simp
  from 1 f sample_addRootPool 2 4 z d 3 show ?thesis by blast
qed

subsection \<open>What the operations keep\<close>

lemma keeps_refl: "keeps w w"
  by (simp add: keeps_def)

lemma keepsI:
  assumes "nextAddr w \<le> nextAddr w'"
    and "\<And>p q. p < nextAddr w \<Longrightarrow> heap w p = Some q \<Longrightarrow>
           \<exists>q'. heap w' p = Some q' \<and> ident q' = ident q \<and>
                set (p_children q) \<subseteq> set (p_children q')"
  shows "keeps w w'"
  using assms unfolding keeps_def by blast

lemma keepsD:
  assumes "keeps w w'" "p < nextAddr w" "heap w p = Some q"
  shows "\<exists>q'. heap w' p = Some q' \<and> ident q' = ident q \<and>
              set (p_children q) \<subseteq> set (p_children q')"
    and "p < nextAddr w'"
  using assms unfolding keeps_def by (blast, force)

lemma keeps_trans:
  assumes "keeps w1 w2" "keeps w2 w3"
  shows "keeps w1 w3"
proof (rule keepsI)
  from assms show "nextAddr w1 \<le> nextAddr w3" by (simp add: keeps_def)
next
  fix p q assume p: "p < nextAddr w1" "heap w1 p = Some q"
  from keepsD [OF assms(1) p] obtain q' where
    q': "heap w2 p = Some q'" "ident q' = ident q" "set (p_children q) \<subseteq> set (p_children q')"
    and lt: "p < nextAddr w2" by blast
  from keepsD (1) [OF assms(2) lt q'(1)] obtain q'' where
    "heap w3 p = Some q''" "ident q'' = ident q'" "set (p_children q') \<subseteq> set (p_children q'')"
    by blast
  with q' show "\<exists>q'. heap w3 p = Some q' \<and> ident q' = ident q \<and>
      set (p_children q) \<subseteq> set (p_children q')" by auto
qed

lemma keeps_applyCapacities: "keeps w (w\<lparr>heap := applyCapacities ups (heap w)\<rparr>)"
proof (rule keepsI)
  show "nextAddr w \<le> nextAddr (w\<lparr>heap := applyCapacities ups (heap w)\<rparr>)" by simp
next
  fix p q assume "heap w p = Some q"
  from applyCapacities_Some [where h = "heap w" and p = p and q = q and ups = ups, OF this]
  obtain c where "applyCapacities ups (heap w) p = Some (q\<lparr>p_capacity := c\<rparr>)" by blast
  then show "\<exists>q'. heap (w\<lparr>heap := applyCapacities ups (heap w)\<rparr>) p = Some q' \<and>
      ident q' = ident q \<and> set (p_children q) \<subseteq> set (p_children q')"
    by (simp add: ident_def)
qed

lemma keeps_new:
  assumes "newMemoryPoolImpl X init w = (p, w1)"
  shows "keeps w w1"
proof (rule keepsI)
  from newMemoryPoolImpl_heap [OF assms] show "nextAddr w \<le> nextAddr w1" by simp
next
  fix r q assume "r < nextAddr w" "heap w r = Some q"
  with newMemoryPoolImpl_heap [OF assms]
  show "\<exists>q'. heap w1 r = Some q' \<and> ident q' = ident q \<and>
      set (p_children q) \<subseteq> set (p_children q')" by simp
qed

lemma keeps_update:
  assumes "heap w p = Some q" "ident q' = ident q" "set (p_children q) \<subseteq> set (p_children q')"
  shows "keeps w (w\<lparr>heap := (heap w)(p \<mapsto> q')\<rparr>)"
proof (rule keepsI)
  show "nextAddr w \<le> nextAddr (w\<lparr>heap := (heap w)(p \<mapsto> q')\<rparr>)" by simp
next
  fix r x assume "heap w r = Some x"
  with assms show "\<exists>y. heap (w\<lparr>heap := (heap w)(p \<mapsto> q')\<rparr>) r = Some y \<and> ident y = ident x \<and>
      set (p_children x) \<subseteq> set (p_children y)"
    by (cases "r = p") simp_all
qed

lemma keeps_grow: "keeps w (grow p b w)"
proof (cases "heap w p")
  case None
  then show ?thesis by (simp add: grow_def keeps_refl)
next
  case (Some q)
  have "keeps w (w\<lparr>heap := (heap w)(p \<mapsto> q\<lparr>p_capacity := p_capacity q + b\<rparr>)\<rparr>)"
    using Some by (rule keeps_update) (simp_all add: ident_def)
  with Some show ?thesis by (simp add: grow_def)
qed

lemma keeps_counters:
  "keeps w (w\<lparr>rootPoolId := a\<rparr>)" "keeps w (w\<lparr>leafPoolId := b\<rparr>)"
  by (simp_all add: keeps_def)

lemma keeps_rootPoolName: "keeps w (snd (rootPoolName nm w))"
  by (simp add: rootPoolName_def keeps_refl keeps_counters)

lemma keeps_leafPoolName: "keeps w (snd (leafPoolName nm w))"
  by (simp add: leafPoolName_def keeps_refl keeps_counters)

lemma addLeafChild_cases:
  "(\<exists>e. addLeafChild X root nm ts rec w = (Inl e, w)) \<or>
   (\<exists>r. heap w root = Some r \<and> nm \<notin> set (liveNames (heap w) (p_children r)))"
proof (cases "heap w root")
  case None
  then show ?thesis by (simp add: addLeafChild_def)
next
  case (Some r)
  then show ?thesis
    by (cases "nm \<in> set (liveNames (heap w) (p_children r))") (simp_all add: addLeafChild_duplicate)
qed

lemma addLeafChild_Inl:
  assumes "addLeafChild X root nm ts rec w = (Inl e, w1)"
  shows "w1 = w"
proof -
  from addLeafChild_cases [of X root nm ts rec w] show ?thesis
  proof
    assume "\<exists>e. addLeafChild X root nm ts rec w = (Inl e, w)"
    with assms show ?thesis by auto
  next
    assume "\<exists>r. heap w root = Some r \<and> nm \<notin> set (liveNames (heap w) (p_children r))"
    then obtain r where "heap w root = Some r" "nm \<notin> set (liveNames (heap w) (p_children r))"
      by blast
    from addLeafChild_fresh [OF this, of X ts rec] assms show ?thesis by simp
  qed
qed

lemma addLeafChild_Inr:
  assumes "addLeafChild X root nm ts rec w = (Inr child, w1)"
  shows "child = nextAddr w \<and> nextAddr w1 = Suc (nextAddr w) \<and> keeps w w1 \<and>
         (\<exists>r. heap w root = Some r \<and> nm \<notin> set (liveNames (heap w) (p_children r))) \<and>
         (child \<noteq> root \<longrightarrow>
            (\<exists>q r1. heap w1 child = Some q \<and> p_name q = nm \<and> p_kind q = kLeaf \<and>
                  p_parent q = Some root \<and> \<not> p_expired q \<and>
                  heap w1 root = Some r1 \<and> child \<in> set (p_children r1)))"
proof -
  from addLeafChild_cases [of X root nm ts rec w] assms
  obtain r where r: "heap w root = Some r" "nm \<notin> set (liveNames (heap w) (p_children r))"
    by auto
  let ?c = "nextAddr w"
  let ?child = "r\<lparr>p_name := nm, p_kind := kLeaf, p_parent := Some root,
                      p_reclaimer := rec, p_maxCapacity := kMaxMemory X,
                      p_threadSafe := ts, p_capacity := freshPoolCapacity X,
                      p_currentBytes := 0, p_children := [], p_expired := False\<rparr>"
  let ?r1 = "r\<lparr>p_children := p_children r @ [?c]\<rparr>"
  from addLeafChild_fresh [OF r, of X ts rec] assms
  have c: "child = ?c"
    and w1: "w1 = w\<lparr>heap := (heap w)(?c \<mapsto> ?child, root \<mapsto> ?r1), nextAddr := Suc ?c\<rparr>"
    by simp_all
  from w1 have n: "nextAddr w1 = Suc (nextAddr w)" by simp
  have k: "keeps w w1"
  proof (rule keepsI)
    from n show "nextAddr w \<le> nextAddr w1" by simp
  next
    fix p q assume p: "p < nextAddr w" "heap w p = Some q"
    show "\<exists>q'. heap w1 p = Some q' \<and> ident q' = ident q \<and>
        set (p_children q) \<subseteq> set (p_children q')"
    proof (cases "p = root")
      case True
      with p r have "q = r" by simp
      with True w1 show ?thesis by (auto simp: ident_def)
    next
      case False
      with w1 p show ?thesis by simp
    qed
  qed
  have "\<exists>q r1. heap w1 child = Some q \<and> p_name q = nm \<and> p_kind q = kLeaf \<and>
                  p_parent q = Some root \<and> \<not> p_expired q \<and>
                  heap w1 root = Some r1 \<and> child \<in> set (p_children r1)"
    if "child \<noteq> root"
    using that c w1 by simp
  with c n k r show ?thesis by blast
qed

lemma addLeafPool_keeps: "keeps w (snd (addLeafPool X nm ts m w))"
proof -
  let ?n = "fst (leafPoolName nm w)" and ?w0 = "snd (leafPoolName nm w)"
  have e: "addLeafPool X nm ts m w = addLeafChild X (m_defaultRoot m) ?n ts None ?w0"
    by (simp add: addLeafPool_def split_beta)
  obtain r w1 where a: "addLeafChild X (m_defaultRoot m) ?n ts None ?w0 = (r, w1)"
    by (cases "addLeafChild X (m_defaultRoot m) ?n ts None ?w0")
  have "keeps ?w0 w1"
  proof (cases r)
    case (Inl e)
    with a addLeafChild_Inl have "w1 = ?w0" by blast
    then show ?thesis by (simp add: keeps_refl)
  next
    case (Inr c)
    with a addLeafChild_Inr show ?thesis by blast
  qed
  with keeps_leafPoolName [of w nm] have "keeps w w1" by (rule keeps_trans)
  with e a show ?thesis by simp
qed

lemma addLeafPool_Inr:
  assumes "addLeafPool X nm ts m w = (Inr child, w1)" "nm \<noteq> []"
  shows "child = nextAddr w \<and> nextAddr w1 = Suc (nextAddr w) \<and>
         (\<exists>r. heap w (m_defaultRoot m) = Some r \<and>
              nm \<notin> set (liveNames (heap w) (p_children r))) \<and>
         (child \<noteq> m_defaultRoot m \<longrightarrow>
            (\<exists>q r1. heap w1 child = Some q \<and> p_name q = nm \<and> p_kind q = kLeaf \<and>
                  p_parent q = Some (m_defaultRoot m) \<and> \<not> p_expired q \<and>
                  heap w1 (m_defaultRoot m) = Some r1 \<and> child \<in> set (p_children r1)))"
proof -
  from assms have "addLeafChild X (m_defaultRoot m) nm ts None w = (Inr child, w1)"
    by (simp add: addLeafPool_def leafPoolName_def)
  from addLeafChild_Inr [OF this] show ?thesis by blast
qed

lemma addSharedLeafPools_keeps: "keeps w (snd (addSharedLeafPools X is m w))"
proof (induction "is" arbitrary: m w)
  case Nil
  show ?case by (simp add: keeps_refl)
next
  case (Cons i "is")
  let ?nm = "''default_shared_leaf_pool_'' @ decimal i"
  obtain r w1 where a: "addLeafPool X ?nm True m w = (r, w1)"
    by (cases "addLeafPool X ?nm True m w")
  from addLeafPool_keeps [of w X ?nm True m] a have k: "keeps w w1" by simp
  show ?case
  proof (cases r)
    case (Inl e)
    with a k show ?thesis by simp
  next
    case (Inr p)
    have "keeps w1 (snd (addSharedLeafPools X is (m\<lparr>m_sharedLeafPools := m_sharedLeafPools m @ [p]\<rparr>) w1))"
      by (rule Cons.IH)
    with k have "keeps w (snd (addSharedLeafPools X is (m\<lparr>m_sharedLeafPools := m_sharedLeafPools m @ [p]\<rparr>) w1))"
      by (rule keeps_trans)
    with a Inr show ?thesis by simp
  qed
qed

lemma addSharedLeafPools_addrs:
  "addSharedLeafPools X is m w = (Inr m', w') \<Longrightarrow>
     m_sharedLeafPools m' = m_sharedLeafPools m @ [nextAddr w ..< nextAddr w + length is] \<and>
     nextAddr w' = nextAddr w + length is"
proof (induction "is" arbitrary: m w)
  case Nil
  then show ?case by simp
next
  case (Cons i "is")
  let ?nm = "''default_shared_leaf_pool_'' @ decimal i"
  obtain r w1 where a: "addLeafPool X ?nm True m w = (r, w1)"
    by (cases "addLeafPool X ?nm True m w")
  show ?case
  proof (cases r)
    case (Inl e)
    with a Cons.prems show ?thesis by simp
  next
    case (Inr p)
    have ne: "?nm \<noteq> []" by simp
    from addLeafPool_Inr [OF a [unfolded Inr] ne]
    have p: "p = nextAddr w" and n1: "nextAddr w1 = Suc (nextAddr w)" by blast+
    from a Inr Cons.prems have
      "addSharedLeafPools X is (m\<lparr>m_sharedLeafPools := m_sharedLeafPools m @ [p]\<rparr>) w1 = (Inr m', w')"
      by simp
    from Cons.IH [OF this] p n1
    have "m_sharedLeafPools m' =
            (m_sharedLeafPools m @ [nextAddr w]) @ [Suc (nextAddr w) ..< Suc (nextAddr w) + length is]"
      and n: "nextAddr w' = Suc (nextAddr w) + length is" by simp_all
    moreover have "[nextAddr w ..< nextAddr w + length (i # is)] =
        nextAddr w # [Suc (nextAddr w) ..< Suc (nextAddr w) + length is]"
    proof -
      have "nextAddr w < nextAddr w + length (i # is)" by simp
      from upt_conv_Cons [OF this] show ?thesis by simp
    qed
    ultimately show ?thesis by simp
  qed
qed

lemma ctor_world:
  "keeps w (snd (MemoryManager_ctor X options w)) \<and>
   (\<forall>m w'. MemoryManager_ctor X options w = (Inr m, w') \<longrightarrow>
      m_defaultRoot m = nextAddr w \<and> m_defaultRoot m < nextAddr w' \<and>
      (\<exists>r. heap w' (m_defaultRoot m) = Some r \<and> p_name r = kDefaultRootName \<and>
            p_kind r = kAggregate) \<and>
      m_sharedLeafPools m =
        [Suc (nextAddr w) ..< Suc (nextAddr w) + nat (std_max_int 1 (sint (numSharedLeafPoolsFlag X)))])"
proof (cases "allocator options")
  case None
  then show ?thesis by (simp add: MemoryManager_ctor_def keeps_refl)
next
  case (Some alloc)
  let ?al = "std_max_u16 (kMinAlignment X) (alignment options)"
  let ?init = "\<lparr>p_name = kDefaultRootName, p_kind = kAggregate, p_parent = None,
                  p_reclaimer = None, p_alignment = ?al, p_maxCapacity = kMaxMemory X,
                  p_trackUsage = trackDefaultUsage options, p_threadSafe = True,
                  p_debugEnabled = debugEnabled options,
                  p_coreOnAllocationFailureEnabled = coreOnAllocationFailureEnabled options,
                  p_capacity = 0, p_currentBytes = 0, p_children = [], p_expired = False\<rparr>"
  obtain root w1 where n: "newMemoryPoolImpl X ?init w = (root, w1)" by fastforce
  note h = newMemoryPoolImpl_heap [OF n]
  have k1: "keeps w w1" using n by (rule keeps_new)
  let ?w2 = "grow root (kMaxMemory X) w1"
  have k2: "keeps w ?w2" using k1 keeps_grow by (rule keeps_trans)
  from h have r1: "\<exists>r. heap w1 root = Some r \<and> ident r = (kDefaultRootName, kAggregate, None)"
    by (simp add: ident_def)
  from h have lt1: "root < nextAddr w1" by simp
  from r1 obtain r where r: "heap w1 root = Some r" "ident r = (kDefaultRootName, kAggregate, None)"
    by blast
  from keepsD [OF keeps_grow [of w1 root "kMaxMemory X"] lt1 r(1)] r(2)
  have r2: "\<exists>r. heap ?w2 root = Some r \<and> ident r = (kDefaultRootName, kAggregate, None)"
    and lt2: "root < nextAddr ?w2" by auto
  have n2: "nextAddr ?w2 = Suc (nextAddr w)" using h by (cases "heap w1 root") (simp_all add: grow_def)
  show ?thesis
  proof (cases "arbitratorCreate X (arbitratorConfig options)")
    case None
    with \<open>allocator options = Some alloc\<close> n k1 show ?thesis
      by (simp add: MemoryManager_ctor_def Let_def)
  next
    case (Some a)
    note a = this
    let ?m0 = "\<lparr>m_capacity = capacity options, m_allocator = alloc,
                m_poolInitCapacity = memoryPoolInitCapacity options,
                m_arbitrator = a, m_alignment = ?al,
                m_checkUsageLeak = checkUsageLeak options,
                m_debugEnabled = debugEnabled options,
                m_coreOnAllocationFailureEnabled = coreOnAllocationFailureEnabled options,
                m_defaultRoot = root, m_sharedLeafPools = [], m_pools = []\<rparr>"
    let ?is = "[0 ..< nat (std_max_int 1 (sint (numSharedLeafPoolsFlag X)))]"
    show ?thesis
    proof (cases "alloc_capacity alloc = capacity options \<and> \<not> sint (capacity options) < 0 \<and>
        alignmentCheck X 0 ?al")
      case False
      with \<open>allocator options = Some alloc\<close> a n k1 show ?thesis
        by (auto simp: MemoryManager_ctor_def Let_def)
    next
      case True
      with \<open>allocator options = Some alloc\<close> a n
      have e: "MemoryManager_ctor X options w = addSharedLeafPools X ?is ?m0 ?w2"
        by (simp add: MemoryManager_ctor_def Let_def)
      have k3: "keeps ?w2 (snd (addSharedLeafPools X ?is ?m0 ?w2))" by (rule addSharedLeafPools_keeps)
      with k2 have A: "keeps w (snd (MemoryManager_ctor X options w))"
        unfolding e by (rule keeps_trans)
      have B: "m_defaultRoot m = nextAddr w \<and> m_defaultRoot m < nextAddr w' \<and>
          (\<exists>r. heap w' (m_defaultRoot m) = Some r \<and> p_name r = kDefaultRootName \<and>
            p_kind r = kAggregate) \<and>
          m_sharedLeafPools m =
            [Suc (nextAddr w) ..< Suc (nextAddr w) + nat (std_max_int 1 (sint (numSharedLeafPoolsFlag X)))]"
        if c: "MemoryManager_ctor X options w = (Inr m, w')" for m w'
      proof -
        from c e have s: "addSharedLeafPools X ?is ?m0 ?w2 = (Inr m, w')" by simp
        from addSharedLeafPools_Inr [OF s] have dr: "m_defaultRoot m = root" by auto
        from addSharedLeafPools_addrs [OF s] n2
        have sl: "m_sharedLeafPools m =
            [Suc (nextAddr w) ..< Suc (nextAddr w) + nat (std_max_int 1 (sint (numSharedLeafPoolsFlag X)))]"
          by simp
        from k3 s have "keeps ?w2 w'" by simp
        from r2 obtain r' where r': "heap ?w2 root = Some r'" "ident r' = (kDefaultRootName, kAggregate, None)"
          by blast
        from keepsD [OF \<open>keeps ?w2 w'\<close> lt2 r'(1)] r'(2)
        have "\<exists>r. heap w' root = Some r \<and> p_name r = kDefaultRootName \<and> p_kind r = kAggregate"
          and "root < nextAddr w'" by (auto simp: ident_def)
        with dr sl h show ?thesis by simp
      qed
      from A B show ?thesis by blast
    qed
  qed
qed

lemma addRootPool_keeps: "keeps w (snd (snd (addRootPool X nm cap rec m w)))"
proof (cases "pools_find (m_pools m) (fst (rootPoolName nm w)) = None")
  case False
  from addRootPool_duplicate [OF False, of X cap rec] show ?thesis
    by (simp add: keeps_rootPoolName)
next
  case True
  let ?name = "fst (rootPoolName nm w)" and ?w0 = "snd (rootPoolName nm w)"
  let ?h1 = "(heap w)(nextAddr w \<mapsto> rootPoolInit X ?name cap rec m)"
  let ?w1 = "?w0\<lparr>heap := ?h1, nextAddr := Suc (nextAddr w)\<rparr>"
  have k0: "keeps w ?w0" by (rule keeps_rootPoolName)
  have k1: "keeps w ?w1"
  proof (rule keepsI)
    show "nextAddr w \<le> nextAddr ?w1" by simp
  next
    fix p q assume "p < nextAddr w" "heap w p = Some q"
    then show "\<exists>q'. heap ?w1 p = Some q' \<and> ident q' = ident q \<and>
        set (p_children q) \<subseteq> set (p_children q')" by simp
  qed
  have k2: "keeps ?w1 (?w1\<lparr>heap := applyCapacities ups (heap ?w1)\<rparr>)" for ups
    by (rule keeps_applyCapacities)
  have k3: "keeps w (?w1\<lparr>heap := applyCapacities ups ?h1\<rparr>)" for ups
    using keeps_trans [OF k1 k2 [of ups]] by simp
  from addRootPool_fresh [OF True, of X cap rec] k1 k3 show ?thesis
    by (simp add: Let_def)
qed

lemma addRootPool_manager:
  "m_defaultRoot (fst (snd (addRootPool X nm cap rec m w))) = m_defaultRoot m \<and>
   m_sharedLeafPools (fst (snd (addRootPool X nm cap rec m w))) = m_sharedLeafPools m"
proof (cases "pools_find (m_pools m) (fst (rootPoolName nm w)) = None")
  case False
  from addRootPool_duplicate [OF False, of X cap rec] show ?thesis by simp
next
  case True
  from addRootPool_fresh [OF True, of X cap rec] show ?thesis by (simp add: Let_def)
qed

lemma growPool_frame:
  "keeps w (snd (snd (growPool X pool n m w))) \<and>
   m_defaultRoot (fst (snd (growPool X pool n m w))) = m_defaultRoot m \<and>
   m_sharedLeafPools (fst (snd (growPool X pool n m w))) = m_sharedLeafPools m"
proof (cases pool)
  case None
  then show ?thesis by (simp add: growPool_def keeps_refl)
next
  case (Some p)
  show ?thesis
  proof (cases "heap w p")
    case None
    with Some show ?thesis by (simp add: growPool_def keeps_refl)
  next
    case (Some q)
    with \<open>pool = Some p\<close> show ?thesis
      by (simp add: growPool_def keeps_refl keeps_applyCapacities split_beta)
  qed
qed

lemma shrinkPools_frame:
  "keeps w (snd (snd (shrinkPools X n m w))) \<and>
   m_defaultRoot (fst (snd (shrinkPools X n m w))) = m_defaultRoot m \<and>
   m_sharedLeafPools (fst (snd (shrinkPools X n m w))) = m_sharedLeafPools m"
  by (simp add: shrinkPools_def keeps_applyCapacities split_beta)

lemma dropPool_frame:
  "keeps w (snd (snd (dropPool X pool m w))) \<and>
   m_defaultRoot (fst (snd (dropPool X pool m w))) = m_defaultRoot m \<and>
   m_sharedLeafPools (fst (snd (dropPool X pool m w))) = m_sharedLeafPools m"
proof (cases pool)
  case None
  then show ?thesis by (simp add: dropPool_def keeps_refl)
next
  case (Some p)
  show ?thesis
  proof (cases "heap w p")
    case None
    with Some show ?thesis by (simp add: dropPool_def keeps_refl)
  next
    case (Some q)
    with \<open>pool = Some p\<close> show ?thesis
      by (simp add: dropPool_def keeps_refl keeps_applyCapacities split_beta Let_def)
  qed
qed

subsection \<open>Shared leaf pools: claim C8\<close>

lemma std_max_int_max: "std_max_int a b = max a b"
  by (simp add: std_max_int_def max_def)

text \<open>
  Claim C8. On a manager with at least one shared leaf pool, the lookup for a caller
  returns the pool at index (hash of the caller's thread id) modulo (size of the array),
  which is an index of the array; it depends on nothing else, so the same caller gets
  the same pool every time. Where the pools of the array are different objects, two
  callers get the same pool exactly when their hashes agree modulo the size. A manager
  that was constructed has \<^verbatim>\<open>max(1, FLAGS_velox_memory_num_shared_leaf_pools)\<close> pools
  in the array, all different, and \<^verbatim>\<open>addRootPool\<close>, \<^verbatim>\<open>growPool\<close>,
  \<^verbatim>\<open>shrinkPools\<close> and \<^verbatim>\<open>dropPool\<close> leave the array as it is.
\<close>

theorem sharedLeafPool_by_hash:
  "(m_sharedLeafPools m \<noteq> [] \<longrightarrow>
      deprecatedSharedLeafPool X tid m =
        Inr (m_sharedLeafPools m ! (unat (threadIdHash X tid) mod length (m_sharedLeafPools m))) \<and>
      unat (threadIdHash X tid) mod length (m_sharedLeafPools m) < length (m_sharedLeafPools m)) \<and>
   (m_sharedLeafPools m \<noteq> [] \<and> distinct (m_sharedLeafPools m) \<longrightarrow>
      (deprecatedSharedLeafPool X t1 m = deprecatedSharedLeafPool X t2 m \<longleftrightarrow>
         unat (threadIdHash X t1) mod length (m_sharedLeafPools m) =
         unat (threadIdHash X t2) mod length (m_sharedLeafPools m))) \<and>
   (MemoryManager_ctor X options w = (Inr m, w') \<longrightarrow>
      length (m_sharedLeafPools m) = nat (max 1 (sint (numSharedLeafPoolsFlag X))) \<and>
      m_sharedLeafPools m \<noteq> [] \<and> distinct (m_sharedLeafPools m)) \<and>
   m_sharedLeafPools (fst (snd (addRootPool X nm cap rec m w))) = m_sharedLeafPools m \<and>
   m_sharedLeafPools (fst (snd (growPool X pool n m w))) = m_sharedLeafPools m \<and>
   m_sharedLeafPools (fst (snd (shrinkPools X n m w))) = m_sharedLeafPools m \<and>
   m_sharedLeafPools (fst (snd (dropPool X pool m w))) = m_sharedLeafPools m"
proof -
  let ?xs = "m_sharedLeafPools m"
  let ?i = "\<lambda>t. unat (threadIdHash X t) mod length ?xs"
  have lt: "?i t < length ?xs" if "?xs \<noteq> []" for t
    using that by simp
  have v: "deprecatedSharedLeafPool X t m = Inr (?xs ! ?i t)" if "?xs \<noteq> []" for t
    using that lt [OF that, of t] by (simp add: deprecatedSharedLeafPool_def vector_at_def Let_def)
  have 2: "deprecatedSharedLeafPool X t1 m = deprecatedSharedLeafPool X t2 m \<longleftrightarrow> ?i t1 = ?i t2"
    if ne: "?xs \<noteq> []" and d: "distinct ?xs"
  proof -
    from v [OF ne] have "deprecatedSharedLeafPool X t1 m = deprecatedSharedLeafPool X t2 m \<longleftrightarrow>
        ?xs ! ?i t1 = ?xs ! ?i t2" by simp
    also from d lt [OF ne, of t1] lt [OF ne, of t2] have "\<dots> \<longleftrightarrow> ?i t1 = ?i t2"
      by (simp add: nth_eq_iff_index_eq)
    finally show ?thesis .
  qed
  have 3: "length ?xs = nat (max 1 (sint (numSharedLeafPoolsFlag X))) \<and> ?xs \<noteq> [] \<and> distinct ?xs"
    if c: "MemoryManager_ctor X options w = (Inr m, w')"
  proof -
    from ctor_world [of w X options] c
    have e: "?xs = [Suc (nextAddr w) ..< Suc (nextAddr w) + nat (std_max_int 1 (sint (numSharedLeafPoolsFlag X)))]"
      by blast
    have "0 < nat (max 1 (sint (numSharedLeafPoolsFlag X)))" by simp
    with e show ?thesis by (auto simp: std_max_int_max simp del: upt_Suc)
  qed
  from v lt 2 3 addRootPool_manager [of X nm cap rec m w] growPool_frame [of w X pool n m]
    shrinkPools_frame [of w X n m] dropPool_frame [of w X pool m]
  show ?thesis by blast
qed

text \<open>The sample manager has the two shared leaf pools 1 and 2; with the identity as
  hash, caller 4 gets pool 1, callers 5 and 7 get pool 2.\<close>

theorem sharedLeafPool_by_hash_witness:
  "MemoryManager_ctor sampleExternal sampleOptions emptyWorld = (Inr sampleManager, sampleWorld) \<and>
   m_sharedLeafPools sampleManager = [1, 2] \<and>
   deprecatedSharedLeafPool sampleExternal 4 sampleManager = Inr 1 \<and>
   deprecatedSharedLeafPool sampleExternal 5 sampleManager = Inr 2 \<and>
   deprecatedSharedLeafPool sampleExternal 7 sampleManager = Inr 2 \<and>
   length (m_sharedLeafPools sampleManager) = 2"
proof -
  have xs: "m_sharedLeafPools sampleManager = [1, 2]" by (simp add: sampleManager_def)
  then have ne: "m_sharedLeafPools sampleManager \<noteq> []" by simp
  have l: "length (m_sharedLeafPools sampleManager) = 2" by (simp add: xs)
  have u: "unat (threadIdHash sampleExternal 4) = 4" "unat (threadIdHash sampleExternal 5) = 5"
    "unat (threadIdHash sampleExternal 7) = 7"
    by (simp_all add: sampleExternal_def)
  have h: "unat (threadIdHash sampleExternal 4) mod length (m_sharedLeafPools sampleManager) = 0"
    "unat (threadIdHash sampleExternal 5) mod length (m_sharedLeafPools sampleManager) = 1"
    "unat (threadIdHash sampleExternal 7) mod length (m_sharedLeafPools sampleManager) = 1"
    unfolding l u by simp_all
  have x: "m_sharedLeafPools sampleManager ! 0 = 1" "m_sharedLeafPools sampleManager ! 1 = 2"
    by (simp_all add: xs)
  from sharedLeafPool_by_hash [of sampleManager sampleExternal 4] ne
  have "deprecatedSharedLeafPool sampleExternal 4 sampleManager =
        Inr (m_sharedLeafPools sampleManager !
          (unat (threadIdHash sampleExternal 4) mod length (m_sharedLeafPools sampleManager)))"
    by blast
  with h x have 1: "deprecatedSharedLeafPool sampleExternal 4 sampleManager = Inr 1" by simp
  from sharedLeafPool_by_hash [of sampleManager sampleExternal 5] ne
  have "deprecatedSharedLeafPool sampleExternal 5 sampleManager =
        Inr (m_sharedLeafPools sampleManager !
          (unat (threadIdHash sampleExternal 5) mod length (m_sharedLeafPools sampleManager)))"
    by blast
  with h x have 2: "deprecatedSharedLeafPool sampleExternal 5 sampleManager = Inr 2" by simp
  have d: "distinct (m_sharedLeafPools sampleManager)" by (simp add: xs)
  have "unat (threadIdHash sampleExternal 7) mod length (m_sharedLeafPools sampleManager) =
        unat (threadIdHash sampleExternal 5) mod length (m_sharedLeafPools sampleManager)"
    by (simp add: h)
  with sharedLeafPool_by_hash [of sampleManager sampleExternal _ 7 5] ne d
  have "deprecatedSharedLeafPool sampleExternal 7 sampleManager =
        deprecatedSharedLeafPool sampleExternal 5 sampleManager" by blast
  with 2 have 3: "deprecatedSharedLeafPool sampleExternal 7 sampleManager = Inr 2" by simp
  from sharedLeafPool_by_hash [of sampleManager sampleExternal _ _ _ sampleOptions emptyWorld sampleWorld]
    sample_ctor
  have "length (m_sharedLeafPools sampleManager) =
          nat (max 1 (sint (numSharedLeafPoolsFlag sampleExternal)))" by blast
  then have 4: "length (m_sharedLeafPools sampleManager) = 2" by (simp add: sampleExternal_def)
  from sample_ctor xs 1 2 3 4 show ?thesis by blast
qed

subsection \<open>The spill pool: claim C10\<close>

lemma rootOkAt_keeps:
  assumes "rootOkAt (Some m) w" "keeps w w'" "m_defaultRoot m' = m_defaultRoot m"
  shows "rootOkAt (Some m') w'"
proof -
  from assms(1) obtain r where r: "m_defaultRoot m < nextAddr w" "heap w (m_defaultRoot m) = Some r"
    "p_name r = kDefaultRootName" "p_kind r = kAggregate"
    by (auto simp: rootOkAt_def split: option.splits)
  from keepsD [OF assms(2) r(1,2)] obtain r' where
    "heap w' (m_defaultRoot m) = Some r'" "ident r' = ident r" "m_defaultRoot m < nextAddr w'"
    by blast
  with r assms(3) show ?thesis by (simp add: rootOkAt_def ident_def)
qed

lemma rootOkAt_keeps_same:
  assumes "rootOkAt inst w" "keeps w w'"
  shows "rootOkAt inst w'"
proof (cases inst)
  case None
  then show ?thesis by (simp add: rootOkAt_def)
next
  case (Some m)
  with assms rootOkAt_keeps [of m w w' m] show ?thesis by simp
qed

lemma rootOkAt_ctor:
  assumes "MemoryManager_ctor X options w = (Inr m, w')"
  shows "rootOkAt (Some m) w'"
  using ctor_world [of w X options] assms
  by (auto simp: rootOkAt_def)

lemma isSpillPoolAt_keeps:
  assumes "isSpillPoolAt w p" "keeps w w'"
  shows "isSpillPoolAt w' p"
proof -
  from assms(1) obtain q root r where
    q: "p < nextAddr w" "heap w p = Some q" "p_name q = kSpillName" "p_kind q = kLeaf"
      "p_parent q = Some root"
    and r: "root < nextAddr w" "heap w root = Some r" "p_name r = kDefaultRootName"
      "p_kind r = kAggregate" "p \<in> set (p_children r)"
    by (auto simp: isSpillPoolAt_def split: option.splits)
  from keepsD [OF assms(2) q(1,2)] obtain q' where
    q': "heap w' p = Some q'" "ident q' = ident q" "p < nextAddr w'" by blast
  from keepsD [OF assms(2) r(1,2)] obtain r' where
    r': "heap w' root = Some r'" "ident r' = ident r" "root < nextAddr w'"
      "set (p_children r) \<subseteq> set (p_children r')" by blast
  from r(5) r'(4) have "p \<in> set (p_children r')" by blast
  with q q' r r' show ?thesis by (simp add: isSpillPoolAt_def ident_def)
qed

lemma frames_refl: "frames s s"
  by (simp add: frames_def keeps_refl)

lemma frames_world:
  assumes "keeps (pworld s) w'"
  shows "frames s (s\<lparr>pworld := w'\<rparr>)"
  using assms by (auto simp: frames_def intro: rootOkAt_keeps_same)

lemma frames_instance:
  assumes "keeps (pworld s) w'" "rootOkAt (Some m') w'"
  shows "frames s (s\<lparr>pworld := w', kInstance := Some m'\<rparr>)"
  using assms by (simp add: frames_def)

lemma frames_ctor:
  assumes "MemoryManager_ctor X options (pworld s) = (r, w')"
  shows "keeps (pworld s) w'" and "\<And>m. r = Inr m \<Longrightarrow> rootOkAt (Some m) w'"
proof -
  from ctor_world [of "pworld s" X options] assms show "keeps (pworld s) w'" by simp
  show "rootOkAt (Some m) w'" if "r = Inr m" for m
    using assms that by (auto intro: rootOkAt_ctor)
qed

lemma frames_deprecatedGetInstance:
  "frames s (snd (deprecatedGetInstance X options s)) \<and>
   (\<forall>m s1. deprecatedGetInstance X options s = (Inr m, s1) \<longrightarrow> kInstance s1 = Some m)"
proof (cases "kInstance s")
  case (Some m)
  then show ?thesis by (simp add: deprecatedGetInstance_def frames_refl)
next
  case None
  obtain r w' where c: "MemoryManager_ctor X options (pworld s) = (r, w')"
    by (cases "MemoryManager_ctor X options (pworld s)")
  note f = frames_ctor [OF c]
  show ?thesis
  proof (cases r)
    case (Inl e)
    with None c f(1) show ?thesis by (simp add: deprecatedGetInstance_def frames_world)
  next
    case (Inr m)
    with None c f show ?thesis by (simp add: deprecatedGetInstance_def frames_instance)
  qed
qed

lemma frames_initialize: "frames s (snd (initialize X options s))"
proof (cases "kInstance s")
  case (Some m)
  then show ?thesis by (simp add: initialize_def frames_refl)
next
  case None
  obtain r w' where c: "MemoryManager_ctor X options (pworld s) = (r, w')"
    by (cases "MemoryManager_ctor X options (pworld s)")
  note f = frames_ctor [OF c]
  show ?thesis
  proof (cases r)
    case (Inl e)
    with None c f(1) show ?thesis by (simp add: initialize_def frames_world)
  next
    case (Inr m)
    with None c f show ?thesis by (simp add: initialize_def frames_instance)
  qed
qed

lemma frames_testingSetInstance: "frames s (snd (testingSetInstance X options s))"
proof -
  obtain r w' where c: "MemoryManager_ctor X options (pworld s) = (r, w')"
    by (cases "MemoryManager_ctor X options (pworld s)")
  note f = frames_ctor [OF c]
  show ?thesis
  proof (cases r)
    case (Inl e)
    with c f(1) show ?thesis by (simp add: testingSetInstance_def frames_world)
  next
    case (Inr m)
    with f have "frames s (s\<lparr>pworld := w', kInstance := Some m\<rparr>)" by (simp add: frames_instance)
    with c Inr show ?thesis
      by (simp add: testingSetInstance_def Let_def split: option.splits sum.splits)
  qed
qed

lemma frames_onInstance:
  assumes "\<And>m w. keeps w (snd (f m w)) \<and> m_defaultRoot (fst (f m w)) = m_defaultRoot m"
  shows "frames s (onInstance f s)"
proof (cases "kInstance s")
  case None
  then show ?thesis by (simp add: onInstance_def frames_refl)
next
  case (Some m)
  obtain m1 w1 where e: "f m (pworld s) = (m1, w1)" by (cases "f m (pworld s)")
  from assms [of "pworld s" m] e have k: "keeps (pworld s) w1"
    and d: "m_defaultRoot m1 = m_defaultRoot m" by simp_all
  have "frames s (s\<lparr>pworld := w1, kInstance := Some m1\<rparr>)"
    unfolding frames_def using Some k d by (auto intro: rootOkAt_keeps)
  with Some e show ?thesis by (simp add: onInstance_def)
qed

lemma frames_deprecatedAddDefaultLeafMemoryPool:
  "frames s (snd (deprecatedAddDefaultLeafMemoryPool X defaults nm ts s))"
proof -
  obtain r s1 where g: "deprecatedGetInstance X defaults s = (r, s1)"
    by (cases "deprecatedGetInstance X defaults s")
  from frames_deprecatedGetInstance [of s X defaults] g have f1: "frames s s1" by simp
  show ?thesis
  proof (cases r)
    case (Inl e)
    with g f1 show ?thesis by (simp add: deprecatedAddDefaultLeafMemoryPool_def)
  next
    case (Inr m)
    let ?w = "snd (addLeafPool X nm ts m (pworld s1))"
    have k: "keeps (pworld s1) ?w" by (rule addLeafPool_keeps)
    from f1 have a: "keeps (pworld s) (pworld s1)" by (simp add: frames_def)
    from a k have k2: "keeps (pworld s) ?w" by (rule keeps_trans)
    have "frames s (s1\<lparr>pworld := ?w\<rparr>)"
      unfolding frames_def
    proof (intro conjI impI)
      show "keeps (pworld s) (pworld (s1\<lparr>pworld := ?w\<rparr>))" using k2 by simp
    next
      assume "rootOkAt (kInstance s) (pworld s)"
      with f1 have "rootOkAt (kInstance s1) (pworld s1)" by (simp add: frames_def)
      with k show "rootOkAt (kInstance (s1\<lparr>pworld := ?w\<rparr>)) (pworld (s1\<lparr>pworld := ?w\<rparr>))"
        by (simp add: rootOkAt_keeps_same)
    next
      from f1 consider "spillPool s1 = spillPool s"
        | "spillPool s = None" "rootOkAt (kInstance s) (pworld s) \<longrightarrow>
            (\<exists>p. spillPool s1 = Some p \<and> isSpillPoolAt (pworld s1) p)"
        by (auto simp: frames_def)
      then show "spillPool (s1\<lparr>pworld := ?w\<rparr>) = spillPool s \<or>
         spillPool s = None \<and>
         (rootOkAt (kInstance s) (pworld s) \<longrightarrow>
            (\<exists>p. spillPool (s1\<lparr>pworld := ?w\<rparr>) = Some p \<and>
                 isSpillPoolAt (pworld (s1\<lparr>pworld := ?w\<rparr>)) p))"
      proof cases
        case 1
        then show ?thesis by simp
      next
        case 2
        with k show ?thesis by (auto intro: isSpillPoolAt_keeps)
      qed
    qed
    with g Inr show ?thesis by (simp add: deprecatedAddDefaultLeafMemoryPool_def split_beta)
  qed
qed

lemma frames_deprecatedSharedLeafPool_free:
  "frames s (snd (deprecatedSharedLeafPool_free X defaults tid s))"
proof -
  obtain r s1 where g: "deprecatedGetInstance X defaults s = (r, s1)"
    by (cases "deprecatedGetInstance X defaults s")
  from frames_deprecatedGetInstance [of s X defaults] g have "frames s s1" by simp
  with g show ?thesis by (cases r) (simp_all add: deprecatedSharedLeafPool_free_def)
qed

lemma spillMemoryPool_set:
  assumes "spillPool s = Some p"
  shows "spillMemoryPool X s = (Inr p, s)"
  using assms by (simp add: spillMemoryPool_def)

lemma spillMemoryPool_unset:
  assumes "spillPool s = None"
  shows "(kInstance s = None \<longrightarrow> spillMemoryPool X s = (Inl NotSet, s)) \<and>
         (\<forall>m. kInstance s = Some m \<longrightarrow>
            spillMemoryPool X s =
              (case addLeafPool X kSpillName True m (pworld s) of
                 (Inl e, w) \<Rightarrow> (Inl e, s\<lparr>pworld := w\<rparr>)
               | (Inr p, w) \<Rightarrow> (Inr p, s\<lparr>pworld := w, spillPool := Some p\<rparr>)))"
  using assms by (simp add: spillMemoryPool_def getInstance_def kSpillName_def)

lemma addLeafPool_spill:
  assumes "rootOkAt (Some m) w" "addLeafPool X kSpillName True m w = (Inr p, w1)"
  shows "isSpillPoolAt w1 p"
proof -
  have ne: "kSpillName \<noteq> []" by (simp add: kSpillName_def)
  from assms(1) obtain r where r: "m_defaultRoot m < nextAddr w" "heap w (m_defaultRoot m) = Some r"
    "p_name r = kDefaultRootName" "p_kind r = kAggregate"
    by (auto simp: rootOkAt_def split: option.splits)
  from addLeafPool_Inr [OF assms(2) ne] r(1) obtain q r1 where
    p: "p = nextAddr w" "nextAddr w1 = Suc (nextAddr w)"
    and q: "heap w1 p = Some q" "p_name q = kSpillName" "p_kind q = kLeaf"
      "p_parent q = Some (m_defaultRoot m)"
    and r1: "heap w1 (m_defaultRoot m) = Some r1" "p \<in> set (p_children r1)"
    by auto
  from addLeafPool_keeps [of w X kSpillName True m] assms(2) have "keeps w w1" by simp
  from keepsD [OF this r(1,2)] obtain r' where
    "heap w1 (m_defaultRoot m) = Some r'" "ident r' = ident r" "m_defaultRoot m < nextAddr w1"
    by blast
  with p q r r1 show ?thesis by (simp add: isSpillPoolAt_def ident_def)
qed

lemma frames_spillMemoryPool: "frames s (snd (spillMemoryPool X s))"
proof (cases "spillPool s")
  case (Some p)
  then show ?thesis by (simp add: spillMemoryPool_set frames_refl)
next
  case None
  note u = spillMemoryPool_unset [OF None, of X]
  show ?thesis
  proof (cases "kInstance s")
    case None
    with u show ?thesis by (simp add: frames_refl)
  next
    case (Some m)
    obtain r w where a: "addLeafPool X kSpillName True m (pworld s) = (r, w)"
      by (cases "addLeafPool X kSpillName True m (pworld s)")
    from addLeafPool_keeps [of "pworld s" X kSpillName True m] a
    have k: "keeps (pworld s) w" by simp
    show ?thesis
    proof (cases r)
      case (Inl e)
      with u Some a k show ?thesis by (simp add: frames_world)
    next
      case (Inr p)
      have "frames s (s\<lparr>pworld := w, spillPool := Some p\<rparr>)"
        unfolding frames_def
      proof (intro conjI impI)
        show "keeps (pworld s) (pworld (s\<lparr>pworld := w, spillPool := Some p\<rparr>))" using k by simp
      next
        assume "rootOkAt (kInstance s) (pworld s)"
        with k show "rootOkAt (kInstance (s\<lparr>pworld := w, spillPool := Some p\<rparr>))
            (pworld (s\<lparr>pworld := w, spillPool := Some p\<rparr>))"
          by (simp add: rootOkAt_keeps_same)
      next
        have "rootOkAt (kInstance s) (pworld s) \<longrightarrow> isSpillPoolAt w p"
          using Some a Inr by (auto intro: addLeafPool_spill)
        with \<open>spillPool s = None\<close>
        show "spillPool (s\<lparr>pworld := w, spillPool := Some p\<rparr>) = spillPool s \<or>
          spillPool s = None \<and>
          (rootOkAt (kInstance s) (pworld s) \<longrightarrow>
            (\<exists>p'. spillPool (s\<lparr>pworld := w, spillPool := Some p\<rparr>) = Some p' \<and>
                  isSpillPoolAt (pworld (s\<lparr>pworld := w, spillPool := Some p\<rparr>)) p'))"
          by simp
      qed
      with u Some a Inr show ?thesis by simp
    qed
  qed
qed

lemma isSpillMemoryPool_snd: "snd (isSpillMemoryPool X pool s) = snd (spillMemoryPool X s)"
  by (cases "spillMemoryPool X s" rule: prod.exhaust [case_names Pair])
     (simp add: isSpillMemoryPool_def split: sum.splits)

lemma frames_perform: "frames s (perform X c s)"
proof (cases c)
  case (Initialize options)
  then show ?thesis by (simp add: frames_initialize)
next
  case (TestingSetInstance options)
  then show ?thesis by (simp add: frames_testingSetInstance)
next
  case (DeprecatedGetInstance options)
  then show ?thesis by (simp add: frames_deprecatedGetInstance)
next
  case (DeprecatedAddDefaultLeafMemoryPool defaults nm ts)
  then show ?thesis by (simp add: frames_deprecatedAddDefaultLeafMemoryPool)
next
  case (DeprecatedSharedLeafPool defaults tid)
  then show ?thesis by (simp add: frames_deprecatedSharedLeafPool_free)
next
  case (AddRootPool nm cap rec)
  have "frames s (onInstance (\<lambda>m w. snd (addRootPool X nm cap rec m w)) s)"
    by (rule frames_onInstance) (simp add: addRootPool_keeps addRootPool_manager)
  with AddRootPool show ?thesis by simp
next
  case (AddLeafPool nm ts)
  have "frames s (onInstance (\<lambda>m w. (m, snd (addLeafPool X nm ts m w))) s)"
    by (rule frames_onInstance) (simp add: addLeafPool_keeps)
  with AddLeafPool show ?thesis by simp
next
  case (GrowPool pool n)
  have "frames s (onInstance (\<lambda>m w. snd (growPool X pool n m w)) s)"
    by (rule frames_onInstance) (simp add: growPool_frame)
  with GrowPool show ?thesis by simp
next
  case (ShrinkPools n)
  have "frames s (onInstance (\<lambda>m w. snd (shrinkPools X n m w)) s)"
    by (rule frames_onInstance) (simp add: shrinkPools_frame)
  with ShrinkPools show ?thesis by simp
next
  case (DropPool pool)
  have "frames s (onInstance (\<lambda>m w. snd (dropPool X pool m w)) s)"
    by (rule frames_onInstance) (simp add: dropPool_frame)
  with DropPool show ?thesis by simp
next
  case SpillMemoryPool
  then show ?thesis by (simp add: frames_spillMemoryPool)
next
  case (IsSpillMemoryPool pool)
  then show ?thesis by (simp add: isSpillMemoryPool_snd frames_spillMemoryPool)
qed

lemma frames_processOk:
  assumes "frames s s'" "processOk s"
  shows "processOk s'"
proof -
  from assms have r: "rootOkAt (kInstance s) (pworld s)" and r': "rootOkAt (kInstance s') (pworld s')"
    and k: "keeps (pworld s) (pworld s')"
    by (simp_all add: frames_def processOk_def)
  from assms(1) r consider "spillPool s' = spillPool s"
    | p where "spillPool s' = Some p" "isSpillPoolAt (pworld s') p"
    by (auto simp: frames_def)
  then have "case spillPool s' of None \<Rightarrow> True | Some p \<Rightarrow> isSpillPoolAt (pworld s') p"
  proof cases
    case 1
    with assms(2) k show ?thesis
      by (auto simp: processOk_def split: option.splits intro: isSpillPoolAt_keeps)
  next
    case 2
    then show ?thesis by simp
  qed
  with r' show ?thesis by (simp add: processOk_def)
qed

lemma frames_spillPool:
  assumes "frames s s'" "spillPool s = Some p"
  shows "spillPool s' = Some p"
  using assms by (auto simp: frames_def)

lemma runCalls_processOk: "processOk s \<Longrightarrow> processOk (runCalls X cs s)"
proof (induction cs arbitrary: s)
  case Nil
  then show ?case by simp
next
  case (Cons c cs)
  from frames_processOk [OF frames_perform Cons.prems] have "processOk (perform X c s)" .
  from Cons.IH [OF this] show ?case by simp
qed

lemma runCalls_spillPool: "spillPool s = Some p \<Longrightarrow> spillPool (runCalls X cs s) = Some p"
proof (induction cs arbitrary: s)
  case Nil
  then show ?case by simp
next
  case (Cons c cs)
  from frames_spillPool [OF frames_perform Cons.prems] have "spillPool (perform X c s) = Some p" .
  from Cons.IH [OF this] show ?case by simp
qed

lemma spillMemoryPool_Inr:
  assumes "processOk s" "spillMemoryPool X s = (Inr p, s1)"
  shows "processOk s1 \<and> spillPool s1 = Some p"
proof -
  from frames_spillMemoryPool [of s X] assms have ok: "processOk s1"
    by (auto intro: frames_processOk)
  have "spillPool s1 = Some p"
  proof (cases "spillPool s")
    case (Some p')
    with assms(2) show ?thesis by (simp add: spillMemoryPool_set)
  next
    case None
    note u = spillMemoryPool_unset [OF None, of X]
    show ?thesis
    proof (cases "kInstance s")
      case None
      with u assms(2) show ?thesis by simp
    next
      case (Some m)
      with u assms(2) show ?thesis
        by (auto split: prod.splits sum.splits)
    qed
  qed
  with ok show ?thesis by simp
qed

lemma runCalls_keeps: "keeps (pworld s) (pworld (runCalls X cs s))"
proof (induction cs arbitrary: s)
  case Nil
  show ?case by (simp add: keeps_refl)
next
  case (Cons c cs)
  from frames_perform [of s X c] have "keeps (pworld s) (pworld (perform X c s))"
    by (simp add: frames_def)
  moreover have "keeps (pworld (perform X c s)) (pworld (runCalls X cs (perform X c s)))"
    by (rule Cons.IH)
  ultimately show ?case by (simp add: keeps_trans)
qed

lemma spillMemoryPool_instance: "kInstance (snd (spillMemoryPool X s)) = kInstance s"
  by (simp add: spillMemoryPool_def split: option.splits sum.splits prod.splits)

lemma onInstance_defaultRoot:
  assumes "kInstance s = Some m" "\<And>m w. m_defaultRoot (fst (f m w)) = m_defaultRoot m"
  shows "\<exists>m'. kInstance (onInstance f s) = Some m' \<and> m_defaultRoot m' = m_defaultRoot m"
proof -
  obtain m1 w1 where e: "f m (pworld s) = (m1, w1)" by (cases "f m (pworld s)")
  from assms(2) [of m "pworld s"] e have "m_defaultRoot m1 = m_defaultRoot m" by simp
  with assms(1) e show ?thesis by (simp add: onInstance_def)
qed

lemma perform_defaultRoot:
  assumes "kInstance s = Some m" "\<And>options. c \<noteq> TestingSetInstance options"
  shows "\<exists>m'. kInstance (perform X c s) = Some m' \<and> m_defaultRoot m' = m_defaultRoot m"
proof (cases c)
  case (Initialize options)
  with assms(1) show ?thesis by (simp add: initialize_def)
next
  case (TestingSetInstance options)
  with assms(2) [of options] show ?thesis by simp
next
  case (DeprecatedGetInstance options)
  with assms(1) show ?thesis by (simp add: deprecatedGetInstance_def)
next
  case (DeprecatedAddDefaultLeafMemoryPool defaults nm ts)
  with assms(1) show ?thesis
    by (simp add: deprecatedAddDefaultLeafMemoryPool_def deprecatedGetInstance_def split_beta)
next
  case (DeprecatedSharedLeafPool defaults tid)
  with assms(1) show ?thesis
    by (simp add: deprecatedSharedLeafPool_free_def deprecatedGetInstance_def)
next
  case (AddRootPool nm cap rec)
  have "\<exists>m'. kInstance (onInstance (\<lambda>m w. snd (addRootPool X nm cap rec m w)) s) = Some m' \<and>
      m_defaultRoot m' = m_defaultRoot m"
    using assms(1) by (rule onInstance_defaultRoot) (simp add: addRootPool_manager)
  with AddRootPool show ?thesis by simp
next
  case (AddLeafPool nm ts)
  have "\<exists>m'. kInstance (onInstance (\<lambda>m w. (m, snd (addLeafPool X nm ts m w))) s) = Some m' \<and>
      m_defaultRoot m' = m_defaultRoot m"
    using assms(1) by (rule onInstance_defaultRoot) simp
  with AddLeafPool show ?thesis by simp
next
  case (GrowPool pool n)
  have "\<exists>m'. kInstance (onInstance (\<lambda>m w. snd (growPool X pool n m w)) s) = Some m' \<and>
      m_defaultRoot m' = m_defaultRoot m"
    using assms(1) by (rule onInstance_defaultRoot) (simp add: growPool_frame)
  with GrowPool show ?thesis by simp
next
  case (ShrinkPools n)
  have "\<exists>m'. kInstance (onInstance (\<lambda>m w. snd (shrinkPools X n m w)) s) = Some m' \<and>
      m_defaultRoot m' = m_defaultRoot m"
    using assms(1) by (rule onInstance_defaultRoot) (simp add: shrinkPools_frame)
  with ShrinkPools show ?thesis by simp
next
  case (DropPool pool)
  have "\<exists>m'. kInstance (onInstance (\<lambda>m w. snd (dropPool X pool m w)) s) = Some m' \<and>
      m_defaultRoot m' = m_defaultRoot m"
    using assms(1) by (rule onInstance_defaultRoot) (simp add: dropPool_frame)
  with DropPool show ?thesis by simp
next
  case SpillMemoryPool
  with assms(1) show ?thesis by (simp add: spillMemoryPool_instance)
next
  case (IsSpillMemoryPool pool)
  with assms(1) show ?thesis by (simp add: isSpillMemoryPool_snd spillMemoryPool_instance)
qed

lemma runCalls_defaultRoot:
  assumes "kInstance s = Some m" "\<And>options. TestingSetInstance options \<notin> set cs"
  shows "\<exists>m'. kInstance (runCalls X cs s) = Some m' \<and> m_defaultRoot m' = m_defaultRoot m"
  using assms
proof (induction cs arbitrary: s m)
  case Nil
  then show ?case by simp
next
  case (Cons c cs)
  have ne: "c \<noteq> TestingSetInstance options" for options
    using Cons.prems(2) [of options] by auto
  have "\<exists>m1. kInstance (perform X c s) = Some m1 \<and> m_defaultRoot m1 = m_defaultRoot m"
    using Cons.prems(1) ne by (rule perform_defaultRoot)
  then obtain m1 where
    m1: "kInstance (perform X c s) = Some m1" "m_defaultRoot m1 = m_defaultRoot m" by blast
  have rest: "TestingSetInstance options \<notin> set cs" for options
    using Cons.prems(2) [of options] by simp
  have "\<exists>m'. kInstance (runCalls X cs (perform X c s)) = Some m' \<and>
      m_defaultRoot m' = m_defaultRoot m1"
    using m1(1) rest by (rule Cons.IH)
  with m1(2) show ?case by simp
qed

lemma addLeafPool_named:
  "nm \<noteq> [] \<Longrightarrow> addLeafPool X nm ts m w = addLeafChild X (m_defaultRoot m) nm ts None w"
  by (simp add: addLeafPool_def leafPoolName_def)

lemma spillMemoryPool_none:
  assumes "spillPool s = None" "kInstance s = None"
  shows "spillMemoryPool X s = (Inl NotSet, s)"
  using assms by (simp add: spillMemoryPool_def getInstance_def)

lemma spillMemoryPool_eq:
  assumes "spillPool s = None" "kInstance s = Some m"
  shows "spillMemoryPool X s =
           (case addLeafChild X (m_defaultRoot m) ''_sys.spilling'' True None (pworld s) of
              (Inl e, w) \<Rightarrow> (Inl e, s\<lparr>pworld := w\<rparr>)
            | (Inr p, w) \<Rightarrow> (Inr p, s\<lparr>pworld := w, spillPool := Some p\<rparr>))"
  using assms by (simp add: spillMemoryPool_def getInstance_def addLeafPool_named)

lemma spillMemoryPool_world:
  assumes "spillPool s = None" "kInstance s = Some m" "spillMemoryPool X s = (Inr p, s1)"
  shows "addLeafChild X (m_defaultRoot m) ''_sys.spilling'' True None (pworld s) = (Inr p, pworld s1)"
proof -
  obtain r w where a: "addLeafChild X (m_defaultRoot m) ''_sys.spilling'' True None (pworld s) = (r, w)"
    by (cases "addLeafChild X (m_defaultRoot m) ''_sys.spilling'' True None (pworld s)")
  with assms(3) show ?thesis
    by (cases r) (auto simp: spillMemoryPool_eq [OF assms(1,2)])
qed

lemma spillMemoryPool_duplicate:
  assumes "spillPool s = None" "kInstance s = Some m"
    "heap (pworld s) (m_defaultRoot m) = Some r"
    "''_sys.spilling'' \<in> set (liveNames (heap (pworld s)) (p_children r))"
  shows "spillMemoryPool X s = (Inl (DuplicateChildName ''_sys.spilling''), s)"
  using addLeafChild_duplicate [OF assms(3,4), of X True None]
  by (simp add: spillMemoryPool_eq [OF assms(1,2)])

lemma spillMemoryPool_create:
  assumes "spillPool s = None" "kInstance s = Some m"
    "heap (pworld s) (m_defaultRoot m) = Some r"
    "''_sys.spilling'' \<notin> set (liveNames (heap (pworld s)) (p_children r))"
  shows "\<exists>s1. spillMemoryPool X s = (Inr (nextAddr (pworld s)), s1) \<and>
           spillPool s1 = Some (nextAddr (pworld s)) \<and> kInstance s1 = Some m"
  using addLeafChild_fresh [OF assms(3,4), of X True None] assms(2)
  by (simp add: spillMemoryPool_eq [OF assms(1,2)])

lemma spillMemoryPool_Inl:
  assumes "spillMemoryPool X s = (Inl e, s1)"
  shows "s1 = s"
proof (cases "spillPool s")
  case (Some p)
  with assms show ?thesis by (simp add: spillMemoryPool_set)
next
  case None
  note n = this
  show ?thesis
  proof (cases "kInstance s")
    case None
    with n assms show ?thesis by (simp add: spillMemoryPool_none)
  next
    case (Some m)
    obtain r w where a: "addLeafChild X (m_defaultRoot m) ''_sys.spilling'' True None (pworld s) = (r, w)"
      by (cases "addLeafChild X (m_defaultRoot m) ''_sys.spilling'' True None (pworld s)")
    show ?thesis
    proof (cases r)
      case (Inl e')
      with a have "w = pworld s" by (simp add: addLeafChild_Inl)
      with a Inl assms show ?thesis by (simp add: spillMemoryPool_eq [OF n Some])
    next
      case (Inr p)
      with a assms show ?thesis by (simp add: spillMemoryPool_eq [OF n Some])
    qed
  qed
qed

lemma spillMemoryPool_returns:
  "(\<exists>p s1. spillMemoryPool X s = (Inr p, s1)) \<longleftrightarrow>
     spillPool s \<noteq> None \<or>
     (\<exists>m r. kInstance s = Some m \<and> heap (pworld s) (m_defaultRoot m) = Some r \<and>
            ''_sys.spilling'' \<notin> set (liveNames (heap (pworld s)) (p_children r)))"
proof (cases "spillPool s")
  case (Some p)
  then show ?thesis by (simp add: spillMemoryPool_set)
next
  case None
  note n = this
  show ?thesis
  proof (cases "kInstance s")
    case None
    with n show ?thesis by (simp add: spillMemoryPool_none)
  next
    case (Some m)
    show ?thesis
    proof (cases "heap (pworld s) (m_defaultRoot m)")
      case None
      with n Some show ?thesis by (simp add: spillMemoryPool_eq [OF n Some] addLeafChild_def)
    next
      case (Some r)
      note r = this
      show ?thesis
      proof (cases "''_sys.spilling'' \<in> set (liveNames (heap (pworld s)) (p_children r))")
        case True
        from spillMemoryPool_duplicate [OF n \<open>kInstance s = Some m\<close> r True, of X] n r True
          \<open>kInstance s = Some m\<close>
        show ?thesis by simp
      next
        case False
        from spillMemoryPool_create [OF n \<open>kInstance s = Some m\<close> r False, of X] n r False
          \<open>kInstance s = Some m\<close>
        show ?thesis by auto
      qed
    qed
  qed
qed

lemma isSpillPoolAtD:
  assumes "isSpillPoolAt w p"
  shows "\<exists>q root r. heap w p = Some q \<and> p_name q = ''_sys.spilling'' \<and> p_kind q = kLeaf \<and>
           p_parent q = Some root \<and> heap w root = Some r \<and>
           p_name r = ''__default_root__'' \<and> p_kind r = kAggregate \<and> p \<in> set (p_children r)"
  using assms
  by (auto simp: isSpillPoolAt_def kSpillName_def kDefaultRootName_def split: option.splits)

lemma spill_persists:
  assumes "processOk s" "spillMemoryPool X s = (Inr p, s1)"
  shows "spillMemoryPool X (runCalls X cs s1) = (Inr p, runCalls X cs s1) \<and>
         isSpillMemoryPool X pool (runCalls X cs s1) = (Inr (pool = Some p), runCalls X cs s1) \<and>
         isSpillPoolAt (pworld (runCalls X cs s1)) p \<and>
         p < nextAddr (pworld s1) \<and> isSpillPoolAt (pworld s1) p"
proof -
  let ?s2 = "runCalls X cs s1"
  from spillMemoryPool_Inr [OF assms] have ok1: "processOk s1" and sp1: "spillPool s1 = Some p"
    by simp_all
  then have ok2: "processOk ?s2" and sp: "spillPool ?s2 = Some p"
    by (simp_all add: runCalls_processOk runCalls_spillPool)
  from sp have 1: "spillMemoryPool X ?s2 = (Inr p, ?s2)" by (rule spillMemoryPool_set)
  then have 2: "isSpillMemoryPool X pool ?s2 = (Inr (pool = Some p), ?s2)"
    by (simp add: isSpillMemoryPool_def)
  from ok2 sp have 3: "isSpillPoolAt (pworld ?s2) p" by (simp add: processOk_def)
  from ok1 sp1 have 4: "isSpillPoolAt (pworld s1) p" by (simp add: processOk_def)
  then have 5: "p < nextAddr (pworld s1)" by (simp add: isSpillPoolAt_def)
  from 1 2 3 4 5 show ?thesis by blast
qed

lemma spill_first:
  assumes ok: "processOk s" and n: "spillPool s = None" and m: "kInstance s = Some m"
    and r: "heap (pworld s) (m_defaultRoot m) = Some r"
    and f: "''_sys.spilling'' \<notin> set (liveNames (heap (pworld s)) (p_children r))"
  shows "\<exists>s1. spillMemoryPool X s = (Inr (nextAddr (pworld s)), s1) \<and>
           isSpillMemoryPool X pool s = (Inr (pool = Some (nextAddr (pworld s))), s1) \<and>
           spillPool s1 = Some (nextAddr (pworld s)) \<and> kInstance s1 = Some m \<and>
           (\<exists>q r'. heap (pworld (runCalls X cs s1)) (nextAddr (pworld s)) = Some q \<and>
              p_name q = ''_sys.spilling'' \<and> p_kind q = kLeaf \<and>
              p_parent q = Some (m_defaultRoot m) \<and>
              heap (pworld (runCalls X cs s1)) (m_defaultRoot m) = Some r' \<and>
              p_name r' = ''__default_root__'' \<and> p_kind r' = kAggregate \<and>
              nextAddr (pworld s) \<in> set (p_children r')) \<and>
           ((\<forall>options. TestingSetInstance options \<notin> set cs) \<longrightarrow>
              (\<exists>m'. kInstance (runCalls X cs s1) = Some m' \<and> m_defaultRoot m' = m_defaultRoot m))"
proof -
  let ?p = "nextAddr (pworld s)"
  from spillMemoryPool_create [OF n m r f, of X] obtain s1 where
    s1: "spillMemoryPool X s = (Inr ?p, s1)" "spillPool s1 = Some ?p" "kInstance s1 = Some m"
    by blast
  let ?s2 = "runCalls X cs s1"
  from s1(1) have i: "isSpillMemoryPool X pool s = (Inr (pool = Some ?p), s1)"
    by (simp add: isSpillMemoryPool_def)
  from ok m have lt: "m_defaultRoot m < ?p" by (simp add: processOk_def rootOkAt_def)
  note a = spillMemoryPool_world [OF n m s1(1)]
  from addLeafChild_Inr [OF a] lt obtain q where
    q: "heap (pworld s1) ?p = Some q" "p_parent q = Some (m_defaultRoot m)"
    and lt1: "?p < nextAddr (pworld s1)"
    by auto
  from keepsD(1) [OF runCalls_keeps lt1 q(1), of X cs] q(2) obtain q2 where
    q2: "heap (pworld ?s2) ?p = Some q2" "p_parent q2 = Some (m_defaultRoot m)"
    by (auto simp: ident_def)
  from spill_persists [OF ok s1(1), of cs pool] have "isSpillPoolAt (pworld ?s2) ?p" by simp
  from isSpillPoolAtD [OF this] q2 have t: "\<exists>q r'. heap (pworld ?s2) ?p = Some q \<and>
              p_name q = ''_sys.spilling'' \<and> p_kind q = kLeaf \<and>
              p_parent q = Some (m_defaultRoot m) \<and>
              heap (pworld ?s2) (m_defaultRoot m) = Some r' \<and>
              p_name r' = ''__default_root__'' \<and> p_kind r' = kAggregate \<and>
              ?p \<in> set (p_children r')"
    by auto
  have d: "\<exists>m'. kInstance ?s2 = Some m' \<and> m_defaultRoot m' = m_defaultRoot m"
    if "\<forall>options. TestingSetInstance options \<notin> set cs"
    using s1(3) by (rule runCalls_defaultRoot) (simp add: that)
  from s1 i t d show ?thesis by blast
qed

text \<open>
  Claim C10. Take a process that starts with no instance and with the static of
  \<^verbatim>\<open>spillMemoryPool()\<close> not initialised, and the state \<open>s\<close> after any calls \<open>cs1\<close> of the
  functions of this file.

  \<^item> \<^verbatim>\<open>spillMemoryPool()\<close> returns a pool in \<open>s\<close> exactly when the static is initialised
    already, or there is an instance and no child of its default root that is still owned
    has the name \<^verbatim>\<open>_sys.spilling\<close>. A call that fails changes nothing, and
    \<^verbatim>\<open>isSpillMemoryPool(pool)\<close> fails in the same way.
  \<^item> While the static is not initialised and there is no instance, both functions fail
    with the error of \<^verbatim>\<open>getInstance()\<close>.
  \<^item> While the static is not initialised and there is an instance, both functions fail
    when the name is taken, and otherwise \<^verbatim>\<open>spillMemoryPool()\<close> creates a pool at a new
    address \<open>p\<close>, stores it in the static and returns it, and \<^verbatim>\<open>isSpillMemoryPool(pool)\<close>
    does the same and returns whether \<open>pool\<close> is \<open>p\<close>: false for the null pointer. After
    any further calls \<open>cs2\<close>, \<open>p\<close> is a leaf pool named \<^verbatim>\<open>_sys.spilling\<close>, its parent is the
    default root of the instance of the first call, which is an aggregate pool named
    \<^verbatim>\<open>__default_root__\<close> and has \<open>p\<close> among its children; that pool is the default root
    of the instance for as long as \<^verbatim>\<open>testingSetInstance\<close> does not replace the instance.
  \<^item> Once \<^verbatim>\<open>spillMemoryPool()\<close> has returned the pool \<open>p\<close>, then after any further calls
    \<open>cs2\<close> it returns \<open>p\<close> again and changes nothing, \<^verbatim>\<open>isSpillMemoryPool(pool)\<close> returns
    whether \<open>pool\<close> is \<open>p\<close>, and \<open>p\<close> is a leaf pool named \<^verbatim>\<open>_sys.spilling\<close> and one of the
    children of its parent, an aggregate pool named \<^verbatim>\<open>__default_root__\<close>.

  Every run in which a call returns has a first such call, so it is \<open>cs1\<close>, that call
  and \<open>cs2\<close>.
\<close>

theorem spillMemoryPool_same_instance:
  assumes "kInstance s0 = None" and "spillPool s0 = None" and "s = runCalls X cs1 s0"
  shows
    "((\<exists>p s1. spillMemoryPool X s = (Inr p, s1)) \<longleftrightarrow>
        spillPool s \<noteq> None \<or>
        (\<exists>m r. kInstance s = Some m \<and> heap (pworld s) (m_defaultRoot m) = Some r \<and>
               ''_sys.spilling'' \<notin> set (liveNames (heap (pworld s)) (p_children r)))) \<and>
     (\<forall>e s1. spillMemoryPool X s = (Inl e, s1) \<longrightarrow>
        s1 = s \<and> isSpillMemoryPool X pool s = (Inl e, s)) \<and>
     (spillPool s = None \<and> kInstance s = None \<longrightarrow>
        spillMemoryPool X s = (Inl NotSet, s) \<and> isSpillMemoryPool X pool s = (Inl NotSet, s)) \<and>
     (\<forall>m. spillPool s = None \<and> kInstance s = Some m \<longrightarrow>
        (\<exists>r. heap (pworld s) (m_defaultRoot m) = Some r \<and>
           (if ''_sys.spilling'' \<in> set (liveNames (heap (pworld s)) (p_children r))
            then spillMemoryPool X s = (Inl (DuplicateChildName ''_sys.spilling''), s) \<and>
                 isSpillMemoryPool X pool s = (Inl (DuplicateChildName ''_sys.spilling''), s)
            else (\<exists>s1.
                    spillMemoryPool X s = (Inr (nextAddr (pworld s)), s1) \<and>
                    isSpillMemoryPool X pool s = (Inr (pool = Some (nextAddr (pworld s))), s1) \<and>
                    spillPool s1 = Some (nextAddr (pworld s)) \<and> kInstance s1 = Some m \<and>
                    (\<exists>q r'.
                       heap (pworld (runCalls X cs2 s1)) (nextAddr (pworld s)) = Some q \<and>
                       p_name q = ''_sys.spilling'' \<and> p_kind q = kLeaf \<and>
                       p_parent q = Some (m_defaultRoot m) \<and>
                       heap (pworld (runCalls X cs2 s1)) (m_defaultRoot m) = Some r' \<and>
                       p_name r' = ''__default_root__'' \<and> p_kind r' = kAggregate \<and>
                       nextAddr (pworld s) \<in> set (p_children r')) \<and>
                    ((\<forall>options. TestingSetInstance options \<notin> set cs2) \<longrightarrow>
                       (\<exists>m'. kInstance (runCalls X cs2 s1) = Some m' \<and>
                             m_defaultRoot m' = m_defaultRoot m)))))) \<and>
     (\<forall>p s1. spillMemoryPool X s = (Inr p, s1) \<longrightarrow>
        spillMemoryPool X (runCalls X cs2 s1) = (Inr p, runCalls X cs2 s1) \<and>
        isSpillMemoryPool X pool (runCalls X cs2 s1) = (Inr (pool = Some p), runCalls X cs2 s1) \<and>
        (\<exists>q root r.
           heap (pworld (runCalls X cs2 s1)) p = Some q \<and>
           p_name q = ''_sys.spilling'' \<and> p_kind q = kLeaf \<and> p_parent q = Some root \<and>
           heap (pworld (runCalls X cs2 s1)) root = Some r \<and>
           p_name r = ''__default_root__'' \<and> p_kind r = kAggregate \<and>
           p \<in> set (p_children r)))"
proof -
  from assms(1,2) have "processOk s0" by (simp add: processOk_def rootOkAt_def)
  then have ok: "processOk s" unfolding assms(3) by (rule runCalls_processOk)
  note A = spillMemoryPool_returns [of X s]
  have B: "\<forall>e s1. spillMemoryPool X s = (Inl e, s1) \<longrightarrow>
        s1 = s \<and> isSpillMemoryPool X pool s = (Inl e, s)"
  proof (intro allI impI)
    fix e s1 assume f: "spillMemoryPool X s = (Inl e, s1)"
    from spillMemoryPool_Inl [OF f] have "s1 = s" .
    with f show "s1 = s \<and> isSpillMemoryPool X pool s = (Inl e, s)"
      by (simp add: isSpillMemoryPool_def)
  qed
  have C: "spillPool s = None \<and> kInstance s = None \<longrightarrow>
        spillMemoryPool X s = (Inl NotSet, s) \<and> isSpillMemoryPool X pool s = (Inl NotSet, s)"
    by (simp add: spillMemoryPool_none isSpillMemoryPool_def)
  have D: "\<forall>m. spillPool s = None \<and> kInstance s = Some m \<longrightarrow>
        (\<exists>r. heap (pworld s) (m_defaultRoot m) = Some r \<and>
           (if ''_sys.spilling'' \<in> set (liveNames (heap (pworld s)) (p_children r))
            then spillMemoryPool X s = (Inl (DuplicateChildName ''_sys.spilling''), s) \<and>
                 isSpillMemoryPool X pool s = (Inl (DuplicateChildName ''_sys.spilling''), s)
            else (\<exists>s1.
                    spillMemoryPool X s = (Inr (nextAddr (pworld s)), s1) \<and>
                    isSpillMemoryPool X pool s = (Inr (pool = Some (nextAddr (pworld s))), s1) \<and>
                    spillPool s1 = Some (nextAddr (pworld s)) \<and> kInstance s1 = Some m \<and>
                    (\<exists>q r'.
                       heap (pworld (runCalls X cs2 s1)) (nextAddr (pworld s)) = Some q \<and>
                       p_name q = ''_sys.spilling'' \<and> p_kind q = kLeaf \<and>
                       p_parent q = Some (m_defaultRoot m) \<and>
                       heap (pworld (runCalls X cs2 s1)) (m_defaultRoot m) = Some r' \<and>
                       p_name r' = ''__default_root__'' \<and> p_kind r' = kAggregate \<and>
                       nextAddr (pworld s) \<in> set (p_children r')) \<and>
                    ((\<forall>options. TestingSetInstance options \<notin> set cs2) \<longrightarrow>
                       (\<exists>m'. kInstance (runCalls X cs2 s1) = Some m' \<and>
                             m_defaultRoot m' = m_defaultRoot m)))))"
  proof (intro allI impI)
    fix m assume "spillPool s = None \<and> kInstance s = Some m"
    then have n: "spillPool s = None" and m: "kInstance s = Some m" by simp_all
    from ok m obtain r where r: "heap (pworld s) (m_defaultRoot m) = Some r"
      by (auto simp: processOk_def rootOkAt_def split: option.splits)
    let ?dup = "''_sys.spilling'' \<in> set (liveNames (heap (pworld s)) (p_children r))"
    have "if ?dup
            then spillMemoryPool X s = (Inl (DuplicateChildName ''_sys.spilling''), s) \<and>
                 isSpillMemoryPool X pool s = (Inl (DuplicateChildName ''_sys.spilling''), s)
            else (\<exists>s1.
                    spillMemoryPool X s = (Inr (nextAddr (pworld s)), s1) \<and>
                    isSpillMemoryPool X pool s = (Inr (pool = Some (nextAddr (pworld s))), s1) \<and>
                    spillPool s1 = Some (nextAddr (pworld s)) \<and> kInstance s1 = Some m \<and>
                    (\<exists>q r'.
                       heap (pworld (runCalls X cs2 s1)) (nextAddr (pworld s)) = Some q \<and>
                       p_name q = ''_sys.spilling'' \<and> p_kind q = kLeaf \<and>
                       p_parent q = Some (m_defaultRoot m) \<and>
                       heap (pworld (runCalls X cs2 s1)) (m_defaultRoot m) = Some r' \<and>
                       p_name r' = ''__default_root__'' \<and> p_kind r' = kAggregate \<and>
                       nextAddr (pworld s) \<in> set (p_children r')) \<and>
                    ((\<forall>options. TestingSetInstance options \<notin> set cs2) \<longrightarrow>
                       (\<exists>m'. kInstance (runCalls X cs2 s1) = Some m' \<and>
                             m_defaultRoot m' = m_defaultRoot m)))"
    proof (cases ?dup)
      case True
      from spillMemoryPool_duplicate [OF n m r True, of X]
      have "spillMemoryPool X s = (Inl (DuplicateChildName ''_sys.spilling''), s) \<and>
            isSpillMemoryPool X pool s = (Inl (DuplicateChildName ''_sys.spilling''), s)"
        by (simp add: isSpillMemoryPool_def)
      with True show ?thesis by (simp only: if_True)
    next
      case False
      from spill_first [OF ok n m r False, of X pool cs2] False
      show ?thesis by (simp only: if_False)
    qed
    with r show "\<exists>r. heap (pworld s) (m_defaultRoot m) = Some r \<and>
           (if ''_sys.spilling'' \<in> set (liveNames (heap (pworld s)) (p_children r))
            then spillMemoryPool X s = (Inl (DuplicateChildName ''_sys.spilling''), s) \<and>
                 isSpillMemoryPool X pool s = (Inl (DuplicateChildName ''_sys.spilling''), s)
            else (\<exists>s1.
                    spillMemoryPool X s = (Inr (nextAddr (pworld s)), s1) \<and>
                    isSpillMemoryPool X pool s = (Inr (pool = Some (nextAddr (pworld s))), s1) \<and>
                    spillPool s1 = Some (nextAddr (pworld s)) \<and> kInstance s1 = Some m \<and>
                    (\<exists>q r'.
                       heap (pworld (runCalls X cs2 s1)) (nextAddr (pworld s)) = Some q \<and>
                       p_name q = ''_sys.spilling'' \<and> p_kind q = kLeaf \<and>
                       p_parent q = Some (m_defaultRoot m) \<and>
                       heap (pworld (runCalls X cs2 s1)) (m_defaultRoot m) = Some r' \<and>
                       p_name r' = ''__default_root__'' \<and> p_kind r' = kAggregate \<and>
                       nextAddr (pworld s) \<in> set (p_children r')) \<and>
                    ((\<forall>options. TestingSetInstance options \<notin> set cs2) \<longrightarrow>
                       (\<exists>m'. kInstance (runCalls X cs2 s1) = Some m' \<and>
                             m_defaultRoot m' = m_defaultRoot m))))"
      by (intro exI [of _ r] conjI)
  qed
  have E: "\<forall>p s1. spillMemoryPool X s = (Inr p, s1) \<longrightarrow>
        spillMemoryPool X (runCalls X cs2 s1) = (Inr p, runCalls X cs2 s1) \<and>
        isSpillMemoryPool X pool (runCalls X cs2 s1) = (Inr (pool = Some p), runCalls X cs2 s1) \<and>
        (\<exists>q root r.
           heap (pworld (runCalls X cs2 s1)) p = Some q \<and>
           p_name q = ''_sys.spilling'' \<and> p_kind q = kLeaf \<and> p_parent q = Some root \<and>
           heap (pworld (runCalls X cs2 s1)) root = Some r \<and>
           p_name r = ''__default_root__'' \<and> p_kind r = kAggregate \<and>
           p \<in> set (p_children r))"
  proof (intro allI impI)
    fix p s1 assume f: "spillMemoryPool X s = (Inr p, s1)"
    note g = spill_persists [OF ok f, of cs2 pool]
    from g have "isSpillPoolAt (pworld (runCalls X cs2 s1)) p" by simp
    from isSpillPoolAtD [OF this] g
    show "spillMemoryPool X (runCalls X cs2 s1) = (Inr p, runCalls X cs2 s1) \<and>
        isSpillMemoryPool X pool (runCalls X cs2 s1) = (Inr (pool = Some p), runCalls X cs2 s1) \<and>
        (\<exists>q root r.
           heap (pworld (runCalls X cs2 s1)) p = Some q \<and>
           p_name q = ''_sys.spilling'' \<and> p_kind q = kLeaf \<and> p_parent q = Some root \<and>
           heap (pworld (runCalls X cs2 s1)) root = Some r \<and>
           p_name r = ''__default_root__'' \<and> p_kind r = kAggregate \<and>
           p \<in> set (p_children r))"
      by simp
  qed
  show ?thesis by (intro conjI A B C D E)
qed

lemma sample_initialize:
  "runCalls sampleExternal [Initialize sampleOptions] startProcess =
     \<lparr>pworld = sampleWorld, kInstance = Some sampleManager, spillPool = None\<rparr>"
  by (simp add: startProcess_def initialize_def sample_ctor)

lemma sample_leaf_named_spilling:
  "runCalls sampleExternal [Initialize sampleOptions, AddLeafPool ''_sys.spilling'' True]
     startProcess =
     \<lparr>pworld = spillWorld, kInstance = Some sampleManager, spillPool = None\<rparr>"
proof -
  have "runCalls sampleExternal [Initialize sampleOptions, AddLeafPool ''_sys.spilling'' True]
          startProcess =
        perform sampleExternal (AddLeafPool ''_sys.spilling'' True)
          (runCalls sampleExternal [Initialize sampleOptions] startProcess)"
    by simp
  also have "\<dots> = \<lparr>pworld = spillWorld, kInstance = Some sampleManager, spillPool = None\<rparr>"
    by (subst sample_initialize)
       (simp add: onInstance_def addLeafPool_def leafPoolName_def addLeafChild_def
          newMemoryPoolImpl_def Let_def sampleExternal_def sampleManager_def sampleWorld_def
          samplePool_def spillWorld_def)
  finally show ?thesis .
qed

text \<open>Before \<^verbatim>\<open>initialize\<close> both functions fail, as there is no instance. After
  \<^verbatim>\<open>initialize\<close> and \<^verbatim>\<open>addLeafPool("_sys.spilling")\<close> both fail, as the name is taken.
  After \<^verbatim>\<open>initialize\<close> alone the first call creates the spill pool at address 3, and
  \<^verbatim>\<open>isSpillMemoryPool\<close> as a first call answers false for the null pointer and true for
  address 3. After a root pool and a leaf pool were added and both functions were
  called again, the pool returned is still the one at address 3, a child of the pool at
  address 0, which is the default root of the instance, and \<^verbatim>\<open>isSpillMemoryPool\<close> holds
  of address 3 only.\<close>

theorem spillMemoryPool_same_instance_witness:
  "kInstance startProcess = None \<and> spillPool startProcess = None \<and>
   spillMemoryPool sampleExternal startProcess = (Inl NotSet, startProcess) \<and>
   isSpillMemoryPool sampleExternal None startProcess = (Inl NotSet, startProcess) \<and>
   fst (spillMemoryPool sampleExternal
          (runCalls sampleExternal
             [Initialize sampleOptions, AddLeafPool ''_sys.spilling'' True] startProcess)) =
     Inl (DuplicateChildName ''_sys.spilling'') \<and>
   fst (isSpillMemoryPool sampleExternal (Some 3)
          (runCalls sampleExternal
             [Initialize sampleOptions, AddLeafPool ''_sys.spilling'' True] startProcess)) =
     Inl (DuplicateChildName ''_sys.spilling'') \<and>
   (\<exists>s1.
      spillMemoryPool sampleExternal
        (runCalls sampleExternal [Initialize sampleOptions] startProcess) = (Inr 3, s1) \<and>
      isSpillMemoryPool sampleExternal None
        (runCalls sampleExternal [Initialize sampleOptions] startProcess) = (Inr False, s1) \<and>
      isSpillMemoryPool sampleExternal (Some 3)
        (runCalls sampleExternal [Initialize sampleOptions] startProcess) = (Inr True, s1) \<and>
      spillPool s1 = Some 3 \<and>
      fst (spillMemoryPool sampleExternal
            (runCalls sampleExternal
               [AddRootPool ''q1'' 64 None, AddLeafPool ''scratch'' True,
                SpillMemoryPool, IsSpillMemoryPool None] s1)) = Inr 3 \<and>
      fst (isSpillMemoryPool sampleExternal (Some 3)
            (runCalls sampleExternal
               [AddRootPool ''q1'' 64 None, AddLeafPool ''scratch'' True,
                SpillMemoryPool, IsSpillMemoryPool None] s1)) = Inr True \<and>
      fst (isSpillMemoryPool sampleExternal (Some 5)
            (runCalls sampleExternal
               [AddRootPool ''q1'' 64 None, AddLeafPool ''scratch'' True,
                SpillMemoryPool, IsSpillMemoryPool None] s1)) = Inr False \<and>
      (\<exists>q r m'.
         heap (pworld (runCalls sampleExternal
               [AddRootPool ''q1'' 64 None, AddLeafPool ''scratch'' True,
                SpillMemoryPool, IsSpillMemoryPool None] s1)) 3 = Some q \<and>
         p_name q = ''_sys.spilling'' \<and> p_kind q = kLeaf \<and> p_parent q = Some 0 \<and>
         heap (pworld (runCalls sampleExternal
               [AddRootPool ''q1'' 64 None, AddLeafPool ''scratch'' True,
                SpillMemoryPool, IsSpillMemoryPool None] s1)) 0 = Some r \<and>
         p_name r = ''__default_root__'' \<and> p_kind r = kAggregate \<and> 3 \<in> set (p_children r) \<and>
         kInstance (runCalls sampleExternal
               [AddRootPool ''q1'' 64 None, AddLeafPool ''scratch'' True,
                SpillMemoryPool, IsSpillMemoryPool None] s1) = Some m' \<and>
         m_defaultRoot m' = 0))"
proof -
  let ?X = sampleExternal
  let ?cs2 = "[AddRootPool ''q1'' 64 None, AddLeafPool ''scratch'' True,
                SpillMemoryPool, IsSpillMemoryPool None]"
  let ?SI = "\<lparr>pworld = sampleWorld, kInstance = Some sampleManager, spillPool = None\<rparr>"
  let ?SD = "\<lparr>pworld = spillWorld, kInstance = Some sampleManager, spillPool = None\<rparr>"
  have a: "kInstance startProcess = None" "spillPool startProcess = None"
    by (simp_all add: startProcess_def)
  have e0: "startProcess = runCalls ?X [] startProcess" by simp
  have eI: "?SI = runCalls ?X [Initialize sampleOptions] startProcess"
    by (rule sample_initialize [symmetric])
  have eD: "?SD = runCalls ?X [Initialize sampleOptions, AddLeafPool ''_sys.spilling'' True]
                    startProcess"
    by (rule sample_leaf_named_spilling [symmetric])
  note sample = sampleWorld_def spillWorld_def sampleManager_def samplePool_def
  note t0 = spillMemoryPool_same_instance [OF a e0, where pool = None and ?cs2.0 = "[]"]
  from t0 [THEN conjunct2, THEN conjunct2, THEN conjunct1] a
  have r0: "spillMemoryPool ?X startProcess = (Inl NotSet, startProcess)"
    "isSpillMemoryPool ?X None startProcess = (Inl NotSet, startProcess)"
    by simp_all
  note tD = spillMemoryPool_same_instance [OF a eD, where pool = "Some 3" and ?cs2.0 = "[]"]
  from tD [THEN conjunct2, THEN conjunct2, THEN conjunct2, THEN conjunct1, rule_format,
      of sampleManager]
  have rD: "spillMemoryPool ?X ?SD = (Inl (DuplicateChildName ''_sys.spilling''), ?SD) \<and>
      isSpillMemoryPool ?X (Some 3) ?SD = (Inl (DuplicateChildName ''_sys.spilling''), ?SD)"
    by (simp add: sample)
  note tI = spillMemoryPool_same_instance [OF a eI, where ?cs2.0 = ?cs2]
  from tI [where pool = None, THEN conjunct2, THEN conjunct2, THEN conjunct2, THEN conjunct1,
      rule_format, of sampleManager]
  obtain s1 where s1: "spillMemoryPool ?X ?SI = (Inr 3, s1)"
    and i0: "isSpillMemoryPool ?X None ?SI = (Inr False, s1)"
    and sp: "spillPool s1 = Some 3"
    and q: "\<exists>q r. heap (pworld (runCalls ?X ?cs2 s1)) 3 = Some q \<and>
         p_name q = ''_sys.spilling'' \<and> p_kind q = kLeaf \<and> p_parent q = Some 0 \<and>
         heap (pworld (runCalls ?X ?cs2 s1)) 0 = Some r \<and>
         p_name r = ''__default_root__'' \<and> p_kind r = kAggregate \<and> 3 \<in> set (p_children r)"
    and d: "\<exists>m'. kInstance (runCalls ?X ?cs2 s1) = Some m' \<and> m_defaultRoot m' = 0"
    by (auto simp: sample)
  from tI [where pool = "Some 3", THEN conjunct2, THEN conjunct2, THEN conjunct2,
      THEN conjunct1, rule_format, of sampleManager] s1
  have i3: "isSpillMemoryPool ?X (Some 3) ?SI = (Inr True, s1)"
    by (auto simp: sample)
  note l = tI [THEN conjunct2, THEN conjunct2, THEN conjunct2, THEN conjunct2, rule_format,
      OF s1]
  from l [where pool = "Some 3"]
  have l1: "fst (spillMemoryPool ?X (runCalls ?X ?cs2 s1)) = Inr 3"
    and l2: "fst (isSpillMemoryPool ?X (Some 3) (runCalls ?X ?cs2 s1)) = Inr True"
    by simp_all
  from l [where pool = "Some 5"]
  have l3: "fst (isSpillMemoryPool ?X (Some 5) (runCalls ?X ?cs2 s1)) = Inr False"
    by simp
  from rD have f1: "fst (spillMemoryPool ?X ?SD) = Inl (DuplicateChildName ''_sys.spilling'')"
    and f2: "fst (isSpillMemoryPool ?X (Some 3) ?SD) = Inl (DuplicateChildName ''_sys.spilling'')"
    by simp_all
  from q d have qd: "\<exists>q r m'.
         heap (pworld (runCalls ?X ?cs2 s1)) 3 = Some q \<and>
         p_name q = ''_sys.spilling'' \<and> p_kind q = kLeaf \<and> p_parent q = Some 0 \<and>
         heap (pworld (runCalls ?X ?cs2 s1)) 0 = Some r \<and>
         p_name r = ''__default_root__'' \<and> p_kind r = kAggregate \<and> 3 \<in> set (p_children r) \<and>
         kInstance (runCalls ?X ?cs2 s1) = Some m' \<and> m_defaultRoot m' = 0"
    by blast
  from s1 i0 i3 sp l1 l2 l3 qd
  have w: "\<exists>s1.
      spillMemoryPool ?X ?SI = (Inr 3, s1) \<and>
      isSpillMemoryPool ?X None ?SI = (Inr False, s1) \<and>
      isSpillMemoryPool ?X (Some 3) ?SI = (Inr True, s1) \<and>
      spillPool s1 = Some 3 \<and>
      fst (spillMemoryPool ?X (runCalls ?X ?cs2 s1)) = Inr 3 \<and>
      fst (isSpillMemoryPool ?X (Some 3) (runCalls ?X ?cs2 s1)) = Inr True \<and>
      fst (isSpillMemoryPool ?X (Some 5) (runCalls ?X ?cs2 s1)) = Inr False \<and>
      (\<exists>q r m'.
         heap (pworld (runCalls ?X ?cs2 s1)) 3 = Some q \<and>
         p_name q = ''_sys.spilling'' \<and> p_kind q = kLeaf \<and> p_parent q = Some 0 \<and>
         heap (pworld (runCalls ?X ?cs2 s1)) 0 = Some r \<and>
         p_name r = ''__default_root__'' \<and> p_kind r = kAggregate \<and> 3 \<in> set (p_children r) \<and>
         kInstance (runCalls ?X ?cs2 s1) = Some m' \<and> m_defaultRoot m' = 0)"
    by (intro exI [of _ s1] conjI)
  from a r0 f1 f2 w show ?thesis
    unfolding sample_initialize sample_leaf_named_spilling
    by (intro conjI)
qed

end
